theory Spec2Isabelle
  imports Complex_Main "HOL-Library.Sublist"
begin

section \<open>Extraction: the paginated fetch of extract.py\<close>

text \<open>
  A Python string is a sequence of Unicode code points. The field names of a record are
  written as HOL strings; the text a record carries is a list of code points, each an
  integer, and \<open>ascii\<close> gives the code points of a text written in ASCII.
\<close>

type_synonym str = "int list"

definition ascii :: "string \<Rightarrow> str" where
  "ascii s = map of_char s"

text \<open>
  A raw booking record is the dictionary decoded from one JSON object of a page's
  \<^verbatim>\<open>results\<close>: field names with their values, in the order of the object. The values
  the pipeline reads are nulls, integers and strings.
\<close>

datatype json = JNull | JInt int | JStr str

type_synonym raw_record = "(string \<times> json) list"

text \<open>
  The decoded body of one page. \<^verbatim>\<open>results\<close> is \<open>None\<close> when the key is not in the body
  (\<^verbatim>\<open>"results" not in data\<close>); \<^verbatim>\<open>total\<close> is \<open>None\<close> when \<^verbatim>\<open>data.get("total")\<close> is
  \<^verbatim>\<open>None\<close>, that is when the key is absent or null.
\<close>

record page_data =
  results :: "raw_record list option"
  total :: "int option"

text \<open>
  What one \<^verbatim>\<open>requests.get\<close> followed by \<^verbatim>\<open>raise_for_status()\<close> and \<^verbatim>\<open>.json()\<close> gives:
  \<open>RequestFailed\<close> when the call or the status check raises (connection error, timeout,
  non-success status), \<open>InvalidJSON\<close> when the body does not decode, the decoded body
  otherwise. The API is a function from the page number of the query string to the
  response; the fetch asks for every page at most once.
\<close>

datatype response = RequestFailed | InvalidJSON | Body page_data

type_synonym api = "int \<Rightarrow> response"

text \<open>The three messages of the \<^verbatim>\<open>ValueError\<close>s raised by the fetch.\<close>

datatype message =
    ResultsKeyNotFound
  | TotalKeyNotFound
  | ResultsKeyNotFoundForPage int

text \<open>
  The exceptions that leave the fetch. \<^verbatim>\<open>OverflowError\<close> is the one of the division that
  counts the pages; the last \<^verbatim>\<open>except\<close> clause logs it and raises it again.
\<close>

datatype fetch_error = RequestException | JSONDecodeError | ValueError message | OverflowError

definition PER_PAGE :: int where
  "PER_PAGE = 50"

subsection \<open>Python's division of two integers\<close>

text \<open>
  \<^verbatim>\<open>a / b\<close> on two Python integers is the 64-bit float nearest to the quotient, a tie
  going to the even mantissa, and an \<^verbatim>\<open>OverflowError\<close> when that float would be
  \<open>2 ^ 1024\<close> or more. A positive float is written here as a pair \<open>(m, e)\<close> that stands
  for \<open>m * 2 ^ e\<close>, with a mantissa \<open>m\<close> of 53 bits (or \<open>2 ^ 53\<close>, when the rounding
  carries).

  \<open>bit_length\<close> is \<^verbatim>\<open>int.bit_length\<close> on a positive integer. For positive \<open>n\<close> and \<open>d\<close>,
  \<open>nearest_double n d\<close> first finds \<open>fl\<close>, the exponent of the leading bit of the quotient
  (\<open>2 ^ fl \<le> n / d < 2 ^ (fl + 1)\<close>), and then rounds the quotient scaled to 53 bits.
  The quotients of this program are at least \<open>1 / 50\<close>, far above the subnormal floats.
\<close>

function bit_length :: "int \<Rightarrow> nat" where
  "bit_length n = (if n \<le> 0 then 0 else Suc (bit_length (n div 2)))"
  by pat_completeness auto
termination
  by (relation "measure nat") auto

declare bit_length.simps [simp del]

definition round_half_even :: "int \<Rightarrow> int \<Rightarrow> int" where
  "round_half_even num den =
     (let q = num div den; r = num mod den
      in if 2 * r < den then q else if den < 2 * r then q + 1
         else if even q then q else q + 1)"

definition nearest_double :: "int \<Rightarrow> int \<Rightarrow> (int \<times> int) option" where
  "nearest_double n d =
     (let k = int (bit_length n) - int (bit_length d);
          fl = (if (if 0 \<le> k then d * 2 ^ nat k \<le> n else d \<le> n * 2 ^ nat (- k))
                then k else k - 1);
          e = fl - 52;
          num = (if 0 \<le> e then n else n * 2 ^ nat (- e));
          den = (if 0 \<le> e then d * 2 ^ nat e else d);
          m = round_half_even num den
      in if 0 \<le> e \<and> 2 ^ 1024 \<le> m * 2 ^ nat e then None else Some (m, e))"

text \<open>\<^verbatim>\<open>math.ceil\<close> and \<^verbatim>\<open>math.floor\<close> of a positive float: exact, and an integer.\<close>

definition ceil_double :: "int \<times> int \<Rightarrow> int" where
  "ceil_double x =
     (case x of (m, e) \<Rightarrow>
        if 0 \<le> e then m * 2 ^ nat e else - ((- m) div 2 ^ nat (- e)))"

definition floor_double :: "int \<times> int \<Rightarrow> int" where
  "floor_double x =
     (case x of (m, e) \<Rightarrow>
        if 0 \<le> e then m * 2 ^ nat e else m div 2 ^ nat (- e))"

text \<open>
  \<^verbatim>\<open>math.ceil(total_records / PER_PAGE)\<close>: \<open>None\<close> when the division overflows. A negative
  total divides to the negated float of its absolute value, and the ceiling of a negated
  float is the negated floor.
\<close>

definition total_pages :: "int \<Rightarrow> int option" where
  "total_pages total_records =
     (if total_records = 0 then Some 0
      else case nearest_double \<bar>total_records\<bar> PER_PAGE of
             None \<Rightarrow> None
           | Some x \<Rightarrow> Some (if 0 < total_records then ceil_double x else - floor_double x))"

subsection \<open>The fetch\<close>

text \<open>
  The loop \<^verbatim>\<open>for page in range(2, total_pages + 1)\<close>, over the pages still to fetch. The
  state is the list of pages requested so far and the accumulated records; an exception
  leaves the loop with the error and without the records.
\<close>

fun fetch_remaining ::
  "api \<Rightarrow> int list \<Rightarrow> int list \<Rightarrow> raw_record list \<Rightarrow> int list \<times> (fetch_error + raw_record list)"
where
  "fetch_remaining get [] requested records = (requested, Inr records)"
| "fetch_remaining get (page # pages) requested records =
     (case get page of
        RequestFailed \<Rightarrow> (requested @ [page], Inl RequestException)
      | InvalidJSON \<Rightarrow> (requested @ [page], Inl JSONDecodeError)
      | Body data \<Rightarrow>
          (case results data of
             None \<Rightarrow> (requested @ [page], Inl (ValueError (ResultsKeyNotFoundForPage page)))
           | Some rs \<Rightarrow> fetch_remaining get pages (requested @ [page]) (records @ rs)))"

text \<open>
  \<^verbatim>\<open>extract_all_pages\<close>: the first page, its two checks, the page count, then the loop.
  The result is the pages requested, in order, with the exception raised or the records
  returned.
\<close>

definition extract_all_pages :: "api \<Rightarrow> int list \<times> (fetch_error + raw_record list)" where
  "extract_all_pages get =
     (case get 1 of
        RequestFailed \<Rightarrow> ([1], Inl RequestException)
      | InvalidJSON \<Rightarrow> ([1], Inl JSONDecodeError)
      | Body first_page_data \<Rightarrow>
          (case results first_page_data of
             None \<Rightarrow> ([1], Inl (ValueError ResultsKeyNotFound))
           | Some records \<Rightarrow>
               (case total first_page_data of
                  None \<Rightarrow> ([1], Inl (ValueError TotalKeyNotFound))
                | Some total_records \<Rightarrow>
                    (case total_pages total_records of
                       None \<Rightarrow> ([1], Inl OverflowError)
                     | Some pages \<Rightarrow> fetch_remaining get [2..pages] [1] records))))"

text \<open>The records a page carries, for stating what the fetch returns.\<close>

definition page_results :: "api \<Rightarrow> int \<Rightarrow> raw_record list" where
  "page_results get p =
     (case get p of
        Body data \<Rightarrow> (case results data of Some rs \<Rightarrow> rs | None \<Rightarrow> [])
      | _ \<Rightarrow> [])"

definition has_results :: "api \<Rightarrow> int \<Rightarrow> bool" where
  "has_results get p = (case get p of Body data \<Rightarrow> results data \<noteq> None | _ \<Rightarrow> False)"

text \<open>The exception a page raises when it does not give its records.\<close>

definition page_error :: "api \<Rightarrow> int \<Rightarrow> fetch_error" where
  "page_error get p =
     (case get p of
        RequestFailed \<Rightarrow> RequestException
      | InvalidJSON \<Rightarrow> JSONDecodeError
      | Body data \<Rightarrow> ValueError (ResultsKeyNotFoundForPage p))"

text \<open>
  For the examples: an API that answers page \<open>p\<close> with the \<open>p\<close>-th response of a list
  and fails beyond it, an API that answers every page with the same body, and a record
  that is only a booking id.
\<close>

definition serve :: "response list \<Rightarrow> api" where
  "serve responses p =
     (if 1 \<le> p \<and> p \<le> int (length responses) then responses ! nat (p - 1) else RequestFailed)"

definition every_page :: "page_data \<Rightarrow> api" where
  "every_page data p = Body data"

definition booking :: "int \<Rightarrow> raw_record" where
  "booking n = [(''booking_id'', JInt n)]"

section \<open>Transformation: the cleaning of transform.py\<close>

subsection \<open>Tables\<close>

text \<open>
  A cell of a pandas table built from such records: \<open>NaN\<close> where the record has no such
  key, \<open>PyNone\<close> for a JSON null, an integer, a string, and after date parsing a
  \<open>Timestamp\<close> (nanoseconds since the epoch, as pandas stores it) or \<open>NaT\<close>. \<open>PyFloat\<close> is
  a 64-bit float that holds an integer, written by its value: what an integer becomes
  when pandas stores its column as floats.
\<close>

datatype cell = NaN | PyNone | PyInt int | PyFloat int | PyStr str | Timestamp int | NaT

type_synonym row = "string \<Rightarrow> cell"

text \<open>
  A \<^verbatim>\<open>DataFrame\<close>: the column labels, and the rows in order, each with its index label.
  A row gives the cell of every column.
\<close>

record dataframe =
  columns :: "string list"
  rows :: "(nat \<times> row) list"

datatype transform_error = KeyError string

text \<open>
  What pandas, and the Python it runs on, decide and this repository does not:

  \<^item> \<open>infer_objects\<close>: the type inference of \<^verbatim>\<open>pd.DataFrame\<close> on one column of Python
    objects, as the cell it stores for an object of that column (a column of integers
    with a missing value is stored as floats, for one);
  \<^item> \<open>parse_datetime\<close>: how \<^verbatim>\<open>pd.to_datetime\<close> reads a string or number cell of a column
    (\<open>None\<close> where \<^verbatim>\<open>errors="coerce"\<close> gives \<^verbatim>\<open>NaT\<close>);
  \<^item> \<open>str_scalar\<close>: how \<^verbatim>\<open>astype(str)\<close> prints a number or a date of a column;
  \<^item> \<open>cased\<close>, \<open>to_lower\<close>, \<open>to_title\<close>: the Unicode data behind \<^verbatim>\<open>str.title\<close> for the code
    points from 128 on: whether a code point is cased, its lower-case mapping where it
    stands (between the text before it and the text after it: the mapping of a capital
    sigma depends on both) and its title-case mapping. A mapping may be several code
    points long.

  The first three may look at the whole column (the number type and the date format are
  inferred from it).
\<close>

record pandas =
  infer_objects :: "cell list \<Rightarrow> cell \<Rightarrow> cell"
  parse_datetime :: "cell list \<Rightarrow> cell \<Rightarrow> int option"
  str_scalar :: "cell list \<Rightarrow> cell \<Rightarrow> str"
  cased :: "int \<Rightarrow> bool"
  to_lower :: "str \<Rightarrow> int \<Rightarrow> str \<Rightarrow> str"
  to_title :: "int \<Rightarrow> str"

definition and_then :: "'e + 'a \<Rightarrow> ('a \<Rightarrow> 'e + 'b) \<Rightarrow> 'e + 'b" where
  "and_then r f = (case r of Inl e \<Rightarrow> Inl e | Inr x \<Rightarrow> f x)"

subsection \<open>\<^verbatim>\<open>pd.DataFrame(records)\<close>\<close>

text \<open>
  The Python object a record has under a key, \<^verbatim>\<open>nan\<close> when it has no such key.
\<close>

definition raw_cell :: "raw_record \<Rightarrow> string \<Rightarrow> cell" where
  "raw_cell r c =
     (case map_of r c of
        None \<Rightarrow> NaN
      | Some JNull \<Rightarrow> PyNone
      | Some (JInt i) \<Rightarrow> PyInt i
      | Some (JStr s) \<Rightarrow> PyStr s)"

text \<open>The keys of all the records, each once, in the order they first appear.\<close>

fun union_keys :: "string list \<Rightarrow> string list \<Rightarrow> string list" where
  "union_keys seen [] = seen"
| "union_keys seen (k # ks) = union_keys (if k \<in> set seen then seen else seen @ [k]) ks"

text \<open>
  The table of a list of records: a column for every key, the rows labelled by position,
  every column stored as the type inference decides. The transformation is also run on a
  table it returned; the constructor leaves a table as it is.
\<close>

datatype frame_input = Records "raw_record list" | Frame dataframe

fun DataFrame :: "pandas \<Rightarrow> frame_input \<Rightarrow> dataframe" where
  "DataFrame pd (Records records) =
     \<lparr>columns = union_keys [] (concat (map (map fst) records)),
      rows = map (\<lambda>(i, r). (i, \<lambda>c. infer_objects pd (map (\<lambda>x. raw_cell x c) records)
                                     (raw_cell r c)))
               (zip [0..<length records] records)\<rparr>"
| "DataFrame pd (Frame df) = df"

subsection \<open>The pandas operations the transformation uses\<close>

fun isna :: "cell \<Rightarrow> bool" where
  "isna NaN = True"
| "isna PyNone = True"
| "isna NaT = True"
| "isna c = False"

text \<open>\<^verbatim>\<open>df.dropna(subset=[c])\<close>: a \<^verbatim>\<open>KeyError\<close> without the column, else the rows that have it.\<close>

definition dropna :: "string \<Rightarrow> dataframe \<Rightarrow> transform_error + dataframe" where
  "dropna c df =
     (if c \<notin> set (columns df) then Inl (KeyError c)
      else Inr (df\<lparr>rows := filter (\<lambda>(i, r). \<not> isna (r c)) (rows df)\<rparr>))"

text \<open>
  \<^verbatim>\<open>keep="last"\<close>: a row is dropped when a later row has the same value in the column.
\<close>

fun keep_last :: "string \<Rightarrow> (nat \<times> row) list \<Rightarrow> (nat \<times> row) list" where
  "keep_last c [] = []"
| "keep_last c (x # xs) =
     (if snd x c \<in> set (map (\<lambda>y. snd y c) xs) then keep_last c xs else x # keep_last c xs)"

definition drop_duplicates :: "string \<Rightarrow> dataframe \<Rightarrow> transform_error + dataframe" where
  "drop_duplicates c df =
     (if c \<notin> set (columns df) then Inl (KeyError c)
      else Inr (df\<lparr>rows := keep_last c (rows df)\<rparr>))"

text \<open>\<^verbatim>\<open>df[c]\<close>: the column as a series, a \<^verbatim>\<open>KeyError\<close> without it.\<close>

definition getitem :: "dataframe \<Rightarrow> string \<Rightarrow> transform_error + cell list" where
  "getitem df c =
     (if c \<notin> set (columns df) then Inl (KeyError c)
      else Inr (map (\<lambda>x. snd x c) (rows df)))"

text \<open>
  \<^verbatim>\<open>df[c] = series\<close>, for a series that has the index of the frame (every series assigned
  here is computed from a column of the same frame).
\<close>

definition setitem :: "dataframe \<Rightarrow> string \<Rightarrow> cell list \<Rightarrow> dataframe" where
  "setitem df c series =
     \<lparr>columns = (if c \<in> set (columns df) then columns df else columns df @ [c]),
      rows = map (\<lambda>(x, v). (fst x, (snd x)(c := v))) (zip (rows df) series)\<rparr>"

text \<open>
  \<^verbatim>\<open>pd.to_datetime(series, errors="coerce")\<close>: a date stays, a missing value is \<^verbatim>\<open>NaT\<close>, any
  other cell is parsed, and is \<^verbatim>\<open>NaT\<close> when it does not parse.
\<close>

definition parse_cell :: "pandas \<Rightarrow> cell list \<Rightarrow> cell \<Rightarrow> int option" where
  "parse_cell pd col c =
     (case c of
        Timestamp t \<Rightarrow> Some t
      | NaT \<Rightarrow> None
      | NaN \<Rightarrow> None
      | PyNone \<Rightarrow> None
      | _ \<Rightarrow> parse_datetime pd col c)"

definition to_datetime :: "pandas \<Rightarrow> cell list \<Rightarrow> cell list" where
  "to_datetime pd col =
     map (\<lambda>c. case parse_cell pd col c of Some t \<Rightarrow> Timestamp t | None \<Rightarrow> NaT) col"

text \<open>
  \<^verbatim>\<open>series.astype(str)\<close>: \<^verbatim>\<open>str\<close> of every cell. A string is itself, NaN is \<^verbatim>\<open>nan\<close> and
  \<^verbatim>\<open>None\<close> is \<^verbatim>\<open>None\<close>.
\<close>

definition str_cell :: "pandas \<Rightarrow> cell list \<Rightarrow> cell \<Rightarrow> str" where
  "str_cell pd col c =
     (case c of
        PyStr s \<Rightarrow> s
      | NaN \<Rightarrow> ascii ''nan''
      | PyNone \<Rightarrow> ascii ''None''
      | _ \<Rightarrow> str_scalar pd col c)"

definition astype_str :: "pandas \<Rightarrow> cell list \<Rightarrow> str list" where
  "astype_str pd col = map (str_cell pd col) col"

text \<open>
  Python's \<^verbatim>\<open>str.strip()\<close> removes the white space at both ends: the ASCII characters
  9 to 13, 28 to 31 and 32, and the Unicode spaces U+0085, U+00A0, U+1680, U+2000 to
  U+200A, U+2028, U+2029, U+202F, U+205F and U+3000.
\<close>

definition isspace :: "int \<Rightarrow> bool" where
  "isspace c =
     ((9 \<le> c \<and> c \<le> 13) \<or> (28 \<le> c \<and> c \<le> 32) \<or> c = 133 \<or> c = 160 \<or> c = 5760
      \<or> (8192 \<le> c \<and> c \<le> 8202) \<or> c = 8232 \<or> c = 8233 \<or> c = 8239 \<or> c = 8287
      \<or> c = 12288)"

definition strip :: "str \<Rightarrow> str" where
  "strip s = rev (dropWhile isspace (rev (dropWhile isspace s)))"

text \<open>
  Python's \<^verbatim>\<open>str.title()\<close> goes through the code points of the string. A code point that
  follows a cased one is replaced by its lower-case mapping, any other by its title-case
  mapping; whether a code point is cased is asked of the original string, not of the
  mapping. On ASCII the cased code points are the letters and the mappings are a single
  letter; from 128 on the Unicode data decides.
\<close>

definition isupper :: "int \<Rightarrow> bool" where
  "isupper c = (65 \<le> c \<and> c \<le> 90)"

definition islower :: "int \<Rightarrow> bool" where
  "islower c = (97 \<le> c \<and> c \<le> 122)"

definition iscased :: "pandas \<Rightarrow> int \<Rightarrow> bool" where
  "iscased pd c = (if c < 128 then isupper c \<or> islower c else cased pd c)"

definition title_full :: "pandas \<Rightarrow> int \<Rightarrow> str" where
  "title_full pd c = (if c < 128 then [if islower c then c - 32 else c] else to_title pd c)"

definition lower_full :: "pandas \<Rightarrow> str \<Rightarrow> int \<Rightarrow> str \<Rightarrow> str" where
  "lower_full pd before c after =
     (if c < 128 then [if isupper c then c + 32 else c] else to_lower pd before c after)"

fun title_from :: "pandas \<Rightarrow> str \<Rightarrow> bool \<Rightarrow> str \<Rightarrow> str" where
  "title_from pd before previous_is_cased [] = []"
| "title_from pd before previous_is_cased (c # cs) =
     (if previous_is_cased then lower_full pd before c cs else title_full pd c)
     @ title_from pd (before @ [c]) (iscased pd c) cs"

definition title :: "pandas \<Rightarrow> str \<Rightarrow> str" where
  "title pd s = title_from pd [] False s"

definition str_strip :: "str list \<Rightarrow> str list" where
  "str_strip series = map strip series"

definition str_title :: "pandas \<Rightarrow> str list \<Rightarrow> cell list" where
  "str_title pd series = map (\<lambda>s. PyStr (title pd s)) series"

text \<open>
  A string that \<^verbatim>\<open>strip\<close> leaves as it is: no white space at either end. \<^verbatim>\<open>str.isascii\<close>:
  every code point is below 128.
\<close>

definition stripped :: "str \<Rightarrow> bool" where
  "stripped s = (s = [] \<or> (\<not> isspace (hd s) \<and> \<not> isspace (last s)))"

definition isascii :: "str \<Rightarrow> bool" where
  "isascii s = list_all (\<lambda>c. c < 128) s"

text \<open>
  What \<^verbatim>\<open>title\<close> makes of an ASCII code point, for stating what it does on ASCII text: a
  letter after a letter in lower case, any other letter in upper case.
\<close>

definition ascii_title :: "bool \<Rightarrow> int \<Rightarrow> int" where
  "ascii_title previous_is_cased c =
     (if previous_is_cased then (if isupper c then c + 32 else c)
      else (if islower c then c - 32 else c))"

text \<open>
  \<^verbatim>\<open>a >= b\<close> on two date columns, cell by cell: true for two dates in that order, false
  as soon as one side is \<^verbatim>\<open>NaT\<close>.
\<close>

fun ge_cell :: "cell \<Rightarrow> cell \<Rightarrow> bool" where
  "ge_cell (Timestamp a) (Timestamp b) = (a \<ge> b)"
| "ge_cell x y = False"

definition ge_series :: "cell list \<Rightarrow> cell list \<Rightarrow> bool list" where
  "ge_series xs ys = map (\<lambda>(x, y). ge_cell x y) (zip xs ys)"

text \<open>\<^verbatim>\<open>df[mask]\<close>: the rows where the mask is true.\<close>

definition select_rows :: "dataframe \<Rightarrow> bool list \<Rightarrow> dataframe" where
  "select_rows df keep = df\<lparr>rows := map fst (filter snd (zip (rows df) keep))\<rparr>"

subsection \<open>\<^verbatim>\<open>transform_data\<close>\<close>

definition transform_data :: "pandas \<Rightarrow> frame_input \<Rightarrow> transform_error + dataframe" where
  "transform_data pd records =
     (let df = DataFrame pd records in
      and_then (dropna ''booking_id'' df) (\<lambda>df.
      and_then (drop_duplicates ''booking_id'' df) (\<lambda>df.
      and_then (getitem df ''check_in_date'') (\<lambda>s.
      let df = setitem df ''check_in_date'' (to_datetime pd s) in
      and_then (getitem df ''check_out_date'') (\<lambda>s.
      let df = setitem df ''check_out_date'' (to_datetime pd s) in
      and_then (getitem df ''owner_company'') (\<lambda>s.
      let df = setitem df ''owner_company'' (str_title pd (str_strip (astype_str pd s))) in
      and_then (getitem df ''owner_company_country'') (\<lambda>s.
      let df = setitem df ''owner_company_country''
                 (str_title pd (str_strip (astype_str pd s))) in
      and_then (getitem df ''check_out_date'') (\<lambda>check_out.
      and_then (getitem df ''check_in_date'') (\<lambda>check_in.
      Inr (select_rows df (ge_series check_out check_in)))))))))))"

subsection \<open>The stages of the transformation, for stating its properties\<close>

text \<open>
  The five columns the transformation reads, in the order it first reads them; the rows
  left by \<^verbatim>\<open>dropna\<close> and \<^verbatim>\<open>drop_duplicates\<close>; what the four column assignments make of one
  of these rows; and the rows left by the date filter.
\<close>

definition expected_columns :: "string list" where
  "expected_columns =
     [''booking_id'', ''check_in_date'', ''check_out_date'', ''owner_company'',
      ''owner_company_country'']"

definition column :: "(nat \<times> row) list \<Rightarrow> string \<Rightarrow> cell list" where
  "column rs c = map (\<lambda>x. snd x c) rs"

definition deduplicated :: "dataframe \<Rightarrow> (nat \<times> row) list" where
  "deduplicated df =
     keep_last ''booking_id'' (filter (\<lambda>(i, r). \<not> isna (r ''booking_id'')) (rows df))"

definition date_cell :: "pandas \<Rightarrow> cell list \<Rightarrow> cell \<Rightarrow> cell" where
  "date_cell pd col c = (case parse_cell pd col c of Some t \<Rightarrow> Timestamp t | None \<Rightarrow> NaT)"

definition text_cell :: "pandas \<Rightarrow> cell list \<Rightarrow> cell \<Rightarrow> cell" where
  "text_cell pd col c = PyStr (title pd (strip (str_cell pd col c)))"

definition clean_row :: "pandas \<Rightarrow> (nat \<times> row) list \<Rightarrow> row \<Rightarrow> row" where
  "clean_row pd rs r =
     r(''check_in_date'' := date_cell pd (column rs ''check_in_date'') (r ''check_in_date''),
       ''check_out_date'' := date_cell pd (column rs ''check_out_date'') (r ''check_out_date''),
       ''owner_company'' := text_cell pd (column rs ''owner_company'') (r ''owner_company''),
       ''owner_company_country'' :=
          text_cell pd (column rs ''owner_company_country'') (r ''owner_company_country''))"

definition cleaned :: "pandas \<Rightarrow> dataframe \<Rightarrow> (nat \<times> row) list" where
  "cleaned pd df =
     filter (\<lambda>x. ge_cell (snd x ''check_out_date'') (snd x ''check_in_date''))
       (map (\<lambda>x. (fst x, clean_row pd (deduplicated df) (snd x))) (deduplicated df))"

subsection \<open>One pandas for the examples\<close>

text \<open>
  The examples need one concrete pandas. Its type inference is the one of pandas 2 on
  columns of strings, nulls and integers of at most 64 bits with their sign, which is all
  the examples hold: a column with a string stays a column of Python objects, and so does
  a column of nothing but \<^verbatim>\<open>None\<close>; a column of integers stays as it is; a column of
  integers with a \<^verbatim>\<open>None\<close> or a \<^verbatim>\<open>nan\<close> becomes a column of floats, every integer the
  float nearest to it and every missing value NaN; a column of missing values with a
  \<^verbatim>\<open>nan\<close> becomes a column of NaN.
\<close>

fun is_str :: "cell \<Rightarrow> bool" where
  "is_str (PyStr s) = True"
| "is_str c = False"

fun is_int :: "cell \<Rightarrow> bool" where
  "is_int (PyInt i) = True"
| "is_int c = False"

fun fits_int64 :: "cell \<Rightarrow> bool" where
  "fits_int64 (PyInt i) = (- (2 ^ 63) \<le> i \<and> i < 2 ^ 63)"
| "fits_int64 c = True"

text \<open>
  \<^verbatim>\<open>float(i)\<close>, by its value: the float nearest to the integer. No integer of 64 bits
  overflows.
\<close>

definition float_of_int :: "int \<Rightarrow> int" where
  "float_of_int i =
     (if i = 0 then 0
      else case nearest_double \<bar>i\<bar> 1 of
             None \<Rightarrow> 0
           | Some x \<Rightarrow> if 0 < i then floor_double x else - floor_double x)"

definition maybe_convert_objects :: "cell list \<Rightarrow> cell \<Rightarrow> cell" where
  "maybe_convert_objects col c =
     (if list_ex is_str col then c
      else if list_ex is_int col then
        (if list_ex isna col \<and> list_all fits_int64 col
         then (case c of PyInt i \<Rightarrow> PyFloat (float_of_int i) | _ \<Rightarrow> NaN)
         else c)
      else if NaN \<in> set col then NaN
      else c)"

text \<open>
  Its dates: it reads a string \<^verbatim>\<open>YYYY-MM-DD\<close> that names a day of the years 1678 to 2261
  (all of them within the range of a pandas \<^verbatim>\<open>Timestamp\<close>) as midnight of that day, in
  nanoseconds since 1970-01-01, and reads nothing else.
\<close>

definition is_digit :: "int \<Rightarrow> bool" where
  "is_digit c = (48 \<le> c \<and> c \<le> 57)"

fun number_from :: "int \<Rightarrow> str \<Rightarrow> int" where
  "number_from acc [] = acc"
| "number_from acc (c # cs) = number_from (10 * acc + (c - 48)) cs"

definition is_leap :: "int \<Rightarrow> bool" where
  "is_leap y = (y mod 4 = 0 \<and> (y mod 100 \<noteq> 0 \<or> y mod 400 = 0))"

definition days_in_month :: "int \<Rightarrow> int \<Rightarrow> int" where
  "days_in_month y m =
     (if m = 2 then (if is_leap y then 29 else 28)
      else if m = 4 \<or> m = 6 \<or> m = 9 \<or> m = 11 then 30 else 31)"

definition days_from_civil :: "int \<Rightarrow> int \<Rightarrow> int \<Rightarrow> int" where
  "days_from_civil y m d =
     (let y' = (if m \<le> 2 then y - 1 else y);
          era = y' div 400;
          yoe = y' - era * 400;
          doy = (153 * (if m > 2 then m - 3 else m + 9) + 2) div 5 + d - 1;
          doe = yoe * 365 + yoe div 4 - yoe div 100 + doy
      in era * 146097 + doe - 719468)"

definition parse_iso_date :: "str \<Rightarrow> int option" where
  "parse_iso_date s =
     (if length s = 10 \<and> s ! 4 = 45 \<and> s ! 7 = 45
         \<and> list_all is_digit (take 4 s) \<and> list_all is_digit (take 2 (drop 5 s))
         \<and> list_all is_digit (drop 8 s)
      then
        (let y = number_from 0 (take 4 s);
             m = number_from 0 (take 2 (drop 5 s));
             d = number_from 0 (drop 8 s)
         in if 1678 \<le> y \<and> y \<le> 2261 \<and> 1 \<le> m \<and> m \<le> 12 \<and> 1 \<le> d \<and> d \<le> days_in_month y m
            then Some (days_from_civil y m d * 86400000000000)
            else None)
      else None)"

text \<open>
  Its Unicode data: the one of Python 3 for the code points 128 to 255 (Latin-1) and for
  U+0130, the capital I with a dot above, whose lower-case mapping is an \<^verbatim>\<open>i\<close> followed by
  the combining dot U+0307. The combining dot is not cased and maps to itself, as does
  every code point this table does not know; the examples hold no other code point.
\<close>

definition latin_cased :: "int \<Rightarrow> bool" where
  "latin_cased c =
     (c = 170 \<or> c = 181 \<or> c = 186 \<or> (192 \<le> c \<and> c \<le> 255 \<and> c \<noteq> 215 \<and> c \<noteq> 247) \<or> c = 304)"

definition latin_lower :: "int \<Rightarrow> str" where
  "latin_lower c =
     (if 192 \<le> c \<and> c \<le> 222 \<and> c \<noteq> 215 then [c + 32]
      else if c = 304 then [105, 775]
      else [c])"

definition latin_title :: "int \<Rightarrow> str" where
  "latin_title c =
     (if 224 \<le> c \<and> c \<le> 254 \<and> c \<noteq> 247 then [c - 32]
      else if c = 181 then [924]
      else if c = 223 then [83, 115]
      else if c = 255 then [376]
      else [c])"

text \<open>
  The text columns of the examples hold strings and missing values only, so that the
  printing of numbers and dates is never used there; it prints nothing.
\<close>

definition iso_pandas :: pandas where
  "iso_pandas =
     \<lparr>infer_objects = maybe_convert_objects,
      parse_datetime = (\<lambda>col c. case c of PyStr s \<Rightarrow> parse_iso_date s | _ \<Rightarrow> None),
      str_scalar = (\<lambda>col c. []),
      cased = latin_cased,
      to_lower = (\<lambda>before c after. latin_lower c),
      to_title = latin_title\<rparr>"

text \<open>A record with the five expected fields, its texts written in ASCII, for the examples.\<close>

definition record5 :: "json \<Rightarrow> string \<Rightarrow> string \<Rightarrow> string \<Rightarrow> string \<Rightarrow> raw_record" where
  "record5 b d_in d_out company country =
     [(''booking_id'', b), (''check_in_date'', JStr (ascii d_in)),
      (''check_out_date'', JStr (ascii d_out)), (''owner_company'', JStr (ascii company)),
      (''owner_company_country'', JStr (ascii country))]"

text \<open>
  For the examples: the rows and the columns of an outcome (none when the transformation
  raised), and the transformation run once more on the table it returned.
\<close>

definition rows_of :: "transform_error + dataframe \<Rightarrow> (nat \<times> row) list" where
  "rows_of outcome = (case outcome of Inr df \<Rightarrow> rows df | Inl e \<Rightarrow> [])"

definition columns_of :: "transform_error + dataframe \<Rightarrow> string list" where
  "columns_of outcome = (case outcome of Inr df \<Rightarrow> columns df | Inl e \<Rightarrow> [])"

definition again :: "pandas \<Rightarrow> transform_error + dataframe \<Rightarrow> transform_error + dataframe" where
  "again pd outcome = (case outcome of Inr df \<Rightarrow> transform_data pd (Frame df) | Inl e \<Rightarrow> Inl e)"

section \<open>Properties of the fetch\<close>

subsection \<open>The page count\<close>

lemma bit_length_le: "n < 2 ^ k \<Longrightarrow> bit_length n \<le> k"
proof (induction k arbitrary: n)
  case 0
  then show ?case by (simp add: bit_length.simps)
next
  case (Suc k)
  show ?case
  proof (cases "n = 0")
    case True
    then show ?thesis by (simp add: bit_length.simps)
  next
    case False
    from Suc.prems have "n div 2 < 2 ^ k" by simp
    from Suc.IH[OF this] False show ?thesis by (subst bit_length.simps) simp
  qed
qed

lemma bit_length_50: "bit_length 50 = 6"
  by code_simp

lemma round_ceil:
  fixes A B P q r m n K :: int
  assumes "A = 50 * q + r" "0 \<le> r" "r < 50" "32 \<le> P"
    and "A \<le> 50 * B" "50 * B - 49 * P \<le> A"
    and "m = (if 2 * r < 50 then q else if 50 < 2 * r then q + 1 else if even q then q else q + 1)"
  shows "B - P < m \<and> m \<le> B"
  using assms by (auto split: if_splits)

lemma round_floor:
  fixes A G P q r m :: int
  assumes "A = 50 * q + r" "0 \<le> r" "r < 50" "32 \<le> P"
    and "50 * G \<le> A" "A \<le> 50 * G + 49 * P"
    and "m = (if 2 * r < 50 then q else if 50 < 2 * r then q + 1 else if even q then q else q + 1)"
  shows "G \<le> m \<and> m < G + P"
  using assms by (auto split: if_splits)

lemma round_half_even_50:
  "round_half_even A 50 =
     (if 2 * (A mod 50) < 50 then A div 50 else if 50 < 2 * (A mod 50) then A div 50 + 1
      else if even (A div 50) then A div 50 else A div 50 + 1)"
  by (simp add: round_half_even_def Let_def)

lemma nearest_double_small:
  assumes "0 < n" and "n < 2 ^ 53"
  shows "\<exists>s. 5 \<le> s \<and> nearest_double n 50 = Some (round_half_even (n * 2 ^ s) 50, - int s)"
proof -
  define k where "k = int (bit_length n) - int (bit_length 50)"
  define fl where "fl = (if (if 0 \<le> k then 50 * 2 ^ nat k \<le> n else 50 \<le> n * 2 ^ nat (- k)) then k else k - 1)"
  define e where "e = fl - 52"
  from assms(2) have "bit_length n \<le> 53" by (rule bit_length_le)
  then have "k \<le> 47" by (simp add: k_def bit_length_50)
  then have "fl \<le> 47" by (simp add: fl_def)
  then have e: "e \<le> - 5" by (simp add: e_def)
  then have neg: "\<not> 0 \<le> e" by simp
  have "nearest_double n 50 = Some (round_half_even (n * 2 ^ nat (- e)) 50, e)"
    unfolding nearest_double_def Let_def k_def[symmetric] fl_def[symmetric] e_def[symmetric]
    using neg by simp
  moreover from e have "5 \<le> nat (- e)" "e = - int (nat (- e))" by simp_all
  ultimately show ?thesis by metis
qed

lemma ceil_between:
  fixes m K P :: int
  assumes "0 < P" and "(K - 1) * P < m" and "m \<le> K * P"
  shows "- ((- m) div P) = K"
proof -
  have "(- m) div P = - K"
  proof (rule int_div_pos_eq[where r = "P * K - m"])
    show "- m = P * - K + (P * K - m)" by simp
    from assms(3) show "0 \<le> P * K - m" by (simp add: mult.commute)
    from assms(2) show "P * K - m < P" by (simp add: algebra_simps)
  qed
  then show ?thesis by simp
qed

lemma floor_between:
  fixes m F P :: int
  assumes "0 < P" and "F * P \<le> m" and "m < (F + 1) * P"
  shows "m div P = F"
proof (rule int_div_pos_eq[where r = "m - P * F"])
  show "m = P * F + (m - P * F)" by simp
  from assms(2) show "0 \<le> m - P * F" by (simp add: mult.commute)
  from assms(3) show "m - P * F < P" by (simp add: algebra_simps)
qed

lemma total_pages_exact:
  assumes "\<bar>t\<bar> < 2 ^ 53"
  shows "total_pages t = Some (- ((- t) div PER_PAGE))"
proof -
  consider (zero) "t = 0" | (pos) "0 < t" | (neg) "t < 0" by linarith
  then show ?thesis
  proof cases
    case zero
    then show ?thesis by (simp add: total_pages_def)
  next
    case pos
    with assms have "t < 2 ^ 53" by simp
    from nearest_double_small[OF pos this] obtain s where
      s: "5 \<le> s" "nearest_double t 50 = Some (round_half_even (t * 2 ^ s) 50, - int s)" by blast
    define P :: int where "P = 2 ^ s"
    define K where "K = - ((- t) div 50)"
    define m where "m = round_half_even (t * P) 50"
    from s(1) have "(2::int) ^ 5 \<le> 2 ^ s" by (intro power_increasing) simp_all
    then have P: "32 \<le> P" by (simp add: P_def)
    have Kb: "t \<le> 50 * K" "50 * K - 49 \<le> t" unfolding K_def by presburger+
    from Kb(1) P have "t * P \<le> (50 * K) * P" by (intro mult_right_mono) simp_all
    then have u: "t * P \<le> 50 * (K * P)" by (simp add: mult.assoc)
    from Kb(2) P have "(50 * K - 49) * P \<le> t * P" by (intro mult_right_mono) simp_all
    then have l: "50 * (K * P) - 49 * P \<le> t * P" by (simp add: algebra_simps)
    have dm: "t * P = 50 * ((t * P) div 50) + (t * P) mod 50" by simp
    have "K * P - P < m \<and> m \<le> K * P"
      by (rule round_ceil[OF dm _ _ P u l]) (simp_all add: m_def round_half_even_50)
    then have "(K - 1) * P < m" "m \<le> K * P" by (simp_all add: algebra_simps)
    with P have "- ((- m) div P) = K" by (intro ceil_between) simp_all
    then have "ceil_double (m, - int s) = K"
      using s(1) by (simp add: ceil_double_def P_def)
    with s(2) pos show ?thesis
      by (simp add: total_pages_def PER_PAGE_def m_def P_def K_def)
  next
    case neg
    define n where "n = - t"
    from neg assms have n: "0 < n" "n < 2 ^ 53" by (simp_all add: n_def)
    from nearest_double_small[OF n] obtain s where
      s: "5 \<le> s" "nearest_double n 50 = Some (round_half_even (n * 2 ^ s) 50, - int s)" by blast
    define P :: int where "P = 2 ^ s"
    define F where "F = n div 50"
    define m where "m = round_half_even (n * P) 50"
    from s(1) have "(2::int) ^ 5 \<le> 2 ^ s" by (intro power_increasing) simp_all
    then have P: "32 \<le> P" by (simp add: P_def)
    have Fb: "50 * F \<le> n" "n \<le> 50 * F + 49" unfolding F_def by presburger+
    from Fb(1) P have "(50 * F) * P \<le> n * P" by (intro mult_right_mono) simp_all
    then have l: "50 * (F * P) \<le> n * P" by (simp add: mult.assoc)
    from Fb(2) P have "n * P \<le> (50 * F + 49) * P" by (intro mult_right_mono) simp_all
    then have u: "n * P \<le> 50 * (F * P) + 49 * P" by (simp add: algebra_simps)
    have dm: "n * P = 50 * ((n * P) div 50) + (n * P) mod 50" by simp
    have "F * P \<le> m \<and> m < F * P + P"
      by (rule round_floor[OF dm _ _ P l u]) (simp_all add: m_def round_half_even_50)
    then have "F * P \<le> m" "m < (F + 1) * P" by (simp_all add: algebra_simps)
    with P have "m div P = F" by (intro floor_between) simp_all
    then have "floor_double (m, - int s) = F"
      using s(1) by (simp add: floor_double_def P_def)
    with s(2) neg show ?thesis
      by (simp add: total_pages_def PER_PAGE_def m_def P_def F_def n_def)
  qed
qed

lemma exact_ceiling:
  "- ((- t) div PER_PAGE) = \<lceil>real_of_int t / real_of_int PER_PAGE\<rceil>"
proof -
  have "\<lceil>real_of_int t / real_of_int PER_PAGE\<rceil> = - \<lfloor>real_of_int (- t) / real_of_int PER_PAGE\<rfloor>"
    by (simp add: ceiling_def)
  also have "\<dots> = - ((- t) div PER_PAGE)"
    by (simp only: floor_divide_of_int_eq)
  finally show ?thesis by simp
qed

lemma total_pages_ceiling:
  "\<bar>t\<bar> < 2 ^ 53 \<Longrightarrow> total_pages t = Some \<lceil>real_of_int t / real_of_int PER_PAGE\<rceil>"
  by (simp add: total_pages_exact exact_ceiling)

subsection \<open>The loop\<close>

lemma fetch_remaining_all_ok:
  "\<forall>p\<in>set pages. has_results get p \<Longrightarrow>
   fetch_remaining get pages req recs =
     (req @ pages, Inr (recs @ concat (map (page_results get) pages)))"
proof (induction pages arbitrary: req recs)
  case Nil
  then show ?case by simp
next
  case (Cons p ps)
  from Cons.prems have "has_results get p" by simp
  then obtain d rs where d: "get p = Body d" "results d = Some rs"
    by (auto simp: has_results_def split: response.splits)
  then have pr: "page_results get p = rs" by (simp add: page_results_def)
  from Cons.prems have "\<forall>q\<in>set ps. has_results get q" by simp
  from Cons.IH[OF this] d pr show ?case by simp
qed

lemma fetch_remaining_prefix:
  "fetch_remaining get pages req recs = (requested, outcome) \<Longrightarrow>
   \<exists>k. requested = req @ take k pages"
proof (induction pages arbitrary: req recs)
  case Nil
  then show ?case by simp
next
  case (Cons p ps)
  show ?case
  proof (cases "has_results get p")
    case True
    then obtain d rs where d: "get p = Body d" "results d = Some rs"
      by (auto simp: has_results_def split: response.splits)
    with Cons.prems have "fetch_remaining get ps (req @ [p]) (recs @ rs) = (requested, outcome)"
      by simp
    from Cons.IH[OF this] obtain k where "requested = (req @ [p]) @ take k ps" by blast
    then have "requested = req @ take (Suc k) (p # ps)" by simp
    then show ?thesis by blast
  next
    case False
    with Cons.prems have "requested = req @ [p]"
      by (auto simp: has_results_def split: response.splits option.splits)
    then have "requested = req @ take 1 (p # ps)" by simp
    then show ?thesis by blast
  qed
qed

lemma fetch_remaining_first_bad:
  "fetch_remaining get pages req recs = (requested, outcome) \<Longrightarrow>
   p \<in> set requested \<Longrightarrow> p \<notin> set req \<Longrightarrow> \<not> has_results get p \<Longrightarrow>
   last requested = p \<and> outcome = Inl (page_error get p)"
proof (induction pages arbitrary: req recs)
  case Nil
  then show ?case by simp
next
  case (Cons q qs)
  show ?case
  proof (cases "has_results get q")
    case True
    then obtain d rs where d: "get q = Body d" "results d = Some rs"
      by (auto simp: has_results_def split: response.splits)
    with Cons.prems(1) have run: "fetch_remaining get qs (req @ [q]) (recs @ rs) = (requested, outcome)"
      by simp
    from True Cons.prems(4) have "p \<noteq> q" by auto
    with Cons.prems(3) have "p \<notin> set (req @ [q])" by simp
    from Cons.IH[OF run Cons.prems(2) this Cons.prems(4)] show ?thesis .
  next
    case False
    with Cons.prems(1) have r: "requested = req @ [q]" "outcome = Inl (page_error get q)"
      by (auto simp: has_results_def page_error_def split: response.splits option.splits)
    with Cons.prems(2,3) have "p = q" by auto
    with r show ?thesis by simp
  qed
qed

lemma every_page_has_results:
  "results data \<noteq> None \<Longrightarrow> \<forall>p\<in>set pages. has_results (every_page data) p"
  by (simp add: has_results_def every_page_def)

lemma every_page_no_records:
  "concat (map (page_results (every_page \<lparr>results = Some [], total = t\<rparr>)) pages) = []"
  by (induction pages) (simp_all add: page_results_def every_page_def)

text \<open>
  Whatever the page count \<open>n\<close> the division gives: with page 1 and the pages 2 to \<open>n\<close>
  carrying \<^verbatim>\<open>results\<close>, these pages are requested in order and their records returned.
\<close>

lemma fetch_pages_counted:
  assumes "get 1 = Body first" and "results first = Some rs" and "total first = Some t"
    and "total_pages t = Some n"
    and "\<forall>p\<in>set [2..n]. has_results get p"
  shows "extract_all_pages get =
           (1 # [2..n], Inr (concat (map (page_results get) (1 # [2..n]))))"
proof -
  have pr: "page_results get 1 = rs"
    using assms(1,2) by (simp add: page_results_def)
  have run: "extract_all_pages get = fetch_remaining get [2..n] [1] rs"
    using assms(1-4) by (simp add: extract_all_pages_def)
  show ?thesis
    using fetch_remaining_all_ok[OF assms(5), of "[1]" rs] run pr by simp
qed

text \<open>
  A total so large that the division overflows makes the fetch raise after page 1.
\<close>

lemma overflow_raises:
  assumes "get 1 = Body first" and "results first = Some rs" and "total first = Some t"
    and "total_pages t = None"
  shows "extract_all_pages get = ([1], Inl OverflowError)"
  using assms by (simp add: extract_all_pages_def)

lemma overflow_example:
  "extract_all_pages (every_page \<lparr>results = Some [], total = Some (10 ^ 400)\<rparr>)
     = ([1], Inl OverflowError)"
  by code_simp

text \<open>
  Claim C1, as amended. When page 1 carries both \<^verbatim>\<open>results\<close> and a \<^verbatim>\<open>total\<close> below
  \<open>2 ^ 53\<close> in absolute value, and every later page up to \<open>ceil(total / PER_PAGE)\<close> carries
  \<^verbatim>\<open>results\<close>, the page count the fetch computes is \<open>ceil(total / PER_PAGE)\<close>; the fetch
  requests page 1 and then the pages 2 to that count, in this order and nothing else, and
  returns the records of these pages concatenated in page order. With a page count of at
  least one these are the pages 1 to the page count; with a page count of at most one,
  page 1 alone is requested and its records are the result.
\<close>

theorem fetch_all_valid:
  assumes "get 1 = Body first" and "results first = Some rs" and "total first = Some t"
    and "\<bar>t\<bar> < 2 ^ 53"
    and "\<forall>p\<in>set [2..\<lceil>real_of_int t / real_of_int PER_PAGE\<rceil>]. has_results get p"
  shows "total_pages t = Some \<lceil>real_of_int t / real_of_int PER_PAGE\<rceil>
         \<and> extract_all_pages get =
           (1 # [2..\<lceil>real_of_int t / real_of_int PER_PAGE\<rceil>],
            Inr (concat (map (page_results get)
                   (1 # [2..\<lceil>real_of_int t / real_of_int PER_PAGE\<rceil>]))))
         \<and> (1 \<le> \<lceil>real_of_int t / real_of_int PER_PAGE\<rceil> \<longrightarrow>
              1 # [2..\<lceil>real_of_int t / real_of_int PER_PAGE\<rceil>] =
              [1..\<lceil>real_of_int t / real_of_int PER_PAGE\<rceil>])
         \<and> (\<lceil>real_of_int t / real_of_int PER_PAGE\<rceil> \<le> 1 \<longrightarrow>
              extract_all_pages get = ([1], Inr rs))"
proof -
  define n where "n = \<lceil>real_of_int t / real_of_int PER_PAGE\<rceil>"
  have tp: "total_pages t = Some n"
    unfolding n_def by (rule total_pages_ceiling[OF assms(4)])
  have run: "extract_all_pages get = fetch_remaining get [2..n] [1] rs"
    using assms(1-3) tp by (simp add: extract_all_pages_def)
  have a: "extract_all_pages get =
           (1 # [2..n], Inr (concat (map (page_results get) (1 # [2..n]))))"
    using assms(5) unfolding n_def[symmetric]
    by (rule fetch_pages_counted[of get first rs t n, OF assms(1) assms(2) assms(3) tp])
  have c: "1 \<le> n \<longrightarrow> 1 # [2..n] = [1..n]"
    by (simp add: upto_rec1)
  have d: "n \<le> 1 \<longrightarrow> extract_all_pages get = ([1], Inr rs)"
    using run by simp
  from tp a c d show ?thesis unfolding n_def by blast
qed

theorem fetch_all_valid_witness:
  "extract_all_pages
     (serve [Body \<lparr>results = Some [booking 1, booking 2], total = Some 120\<rparr>,
             Body \<lparr>results = Some [booking 3], total = Some 120\<rparr>,
             Body \<lparr>results = Some [booking 4], total = None\<rparr>,
             Body \<lparr>results = Some [booking 5], total = None\<rparr>])
   = ([1, 2, 3], Inr [booking 1, booking 2, booking 3, booking 4])
   \<and> total_pages 120 = Some 3
   \<and> extract_all_pages
     (serve [Body \<lparr>results = Some [booking 1, booking 2], total = Some 2\<rparr>, RequestFailed])
   = ([1], Inr [booking 1, booking 2])"
proof -
  let ?first = "\<lparr>results = Some [booking 1, booking 2], total = Some 120\<rparr>"
  let ?get = "serve [Body ?first,
             Body \<lparr>results = Some [booking 3], total = Some 120\<rparr>,
             Body \<lparr>results = Some [booking 4], total = None\<rparr>,
             Body \<lparr>results = Some [booking 5], total = None\<rparr>]"
  let ?one = "\<lparr>results = Some [booking 1, booking 2], total = Some 2\<rparr>"
  let ?get1 = "serve [Body ?one, RequestFailed]"
  have cl: "\<lceil>real_of_int 120 / real_of_int PER_PAGE\<rceil> = 3"
    "\<lceil>real_of_int 2 / real_of_int PER_PAGE\<rceil> = 1"
    unfolding exact_ceiling[symmetric] by (simp_all add: PER_PAGE_def)
  have "\<forall>p\<in>set [2..\<lceil>real_of_int 120 / real_of_int PER_PAGE\<rceil>]. has_results ?get p"
    unfolding cl by (simp add: serve_def has_results_def)
  from fetch_all_valid[of ?get ?first "[booking 1, booking 2]" 120, OF _ _ _ _ this]
  have a: "extract_all_pages ?get = ([1, 2, 3], Inr [booking 1, booking 2, booking 3, booking 4])"
    and b: "total_pages 120 = Some 3"
    unfolding cl by (simp_all add: serve_def page_results_def)
  have "\<forall>p\<in>set [2..\<lceil>real_of_int 2 / real_of_int PER_PAGE\<rceil>]. has_results ?get1 p"
    unfolding cl by simp
  from fetch_all_valid[of ?get1 ?one "[booking 1, booking 2]" 2, OF _ _ _ _ this]
  have c: "extract_all_pages ?get1 = ([1], Inr [booking 1, booking 2])"
    unfolding cl by (simp add: serve_def page_results_def)
  from a b c show ?thesis by simp
qed

text \<open>
  The counterexample to claim C1 as stated. Page 1 carries an empty \<^verbatim>\<open>results\<close> and a
  total of \<open>10 ^ 17 + 1\<close>, and every later page carries \<^verbatim>\<open>results\<close>. The quotient
  \<open>2000000000000000.02\<close> is not a float; the division gives the float
  \<open>2000000000000000\<close>, so the fetch stops at that page, one page short of
  \<open>ceil(total / PER_PAGE) = 2000000000000001\<close>.
\<close>

theorem page_count_counterexample:
  "extract_all_pages (every_page \<lparr>results = Some [], total = Some 100000000000000001\<rparr>)
     = (1 # [2..2000000000000000], Inr [])
   \<and> \<lceil>real_of_int 100000000000000001 / real_of_int PER_PAGE\<rceil> = 2000000000000001"
proof -
  let ?data = "\<lparr>results = Some [], total = Some 100000000000000001\<rparr>"
  have tp: "total_pages 100000000000000001 = Some 2000000000000000"
    by code_simp
  have ok: "\<forall>p\<in>set [2..2000000000000000]. has_results (every_page ?data) p"
    by (rule every_page_has_results) simp
  have first: "every_page ?data 1 = Body ?data"
    by (simp only: every_page_def)
  have "results ?data = Some []" "total ?data = Some 100000000000000001"
    by simp_all
  from fetch_pages_counted[OF first this tp ok]
  have "extract_all_pages (every_page ?data) = (1 # [2..2000000000000000], Inr [])"
    by (simp only: every_page_no_records)
  moreover have "\<lceil>real_of_int 100000000000000001 / real_of_int PER_PAGE\<rceil> = 2000000000000001"
    unfolding exact_ceiling[symmetric] by (simp add: PER_PAGE_def)
  ultimately show ?thesis by (rule conjI)
qed

text \<open>
  Claim C5. A response the fetch has received that lacks \<^verbatim>\<open>results\<close> (on any page), or
  lacks \<^verbatim>\<open>total\<close> on page 1, makes the fetch raise a \<^verbatim>\<open>ValueError\<close> and return no records.
  The message is the one of the missing key on page 1 and names the page on a later page;
  the offending page is the last one requested.
\<close>

theorem malformed_response:
  assumes "extract_all_pages get = (requested, outcome)"
    and "p \<in> set requested" and "get p = Body data"
    and "results data = None \<or> (p = 1 \<and> total data = None)"
  shows "outcome =
           Inl (ValueError
                  (if p = 1
                   then (if results data = None then ResultsKeyNotFound else TotalKeyNotFound)
                   else ResultsKeyNotFoundForPage p))
         \<and> last requested = p"
proof (cases "p = 1")
  case True
  with assms show ?thesis
    by (auto simp: extract_all_pages_def split: option.splits)
next
  case False
  with assms(4) have bad: "\<not> has_results get p"
    using assms(3) by (simp add: has_results_def)
  from False assms(1,2) obtain rs n where
    run: "fetch_remaining get [2..n] [1] rs = (requested, outcome)"
    by (auto simp: extract_all_pages_def split: response.splits option.splits)
  from False have "p \<notin> set [1]" by simp
  from fetch_remaining_first_bad[OF run assms(2) this bad] assms(3) False
  show ?thesis by (simp add: page_error_def)
qed

theorem malformed_response_witness:
  "extract_all_pages
     (serve [Body \<lparr>results = Some [booking 1], total = Some 120\<rparr>,
             Body \<lparr>results = None, total = Some 120\<rparr>,
             Body \<lparr>results = Some [booking 3], total = Some 120\<rparr>])
   = ([1, 2], Inl (ValueError (ResultsKeyNotFoundForPage 2)))"
proof -
  let ?get = "serve [Body \<lparr>results = Some [booking 1], total = Some 120\<rparr>,
             Body \<lparr>results = None, total = Some 120\<rparr>,
             Body \<lparr>results = Some [booking 3], total = Some 120\<rparr>]"
  have tp: "total_pages 120 = Some 3"
    by code_simp
  have run: "extract_all_pages ?get = (fst (extract_all_pages ?get), snd (extract_all_pages ?get))"
    by simp
  have req: "fst (extract_all_pages ?get) = [1, 2]"
    by (simp add: extract_all_pages_def serve_def tp)
  then have "2 \<in> set (fst (extract_all_pages ?get))" by simp
  from malformed_response[OF run this, of "\<lparr>results = None, total = Some 120\<rparr>"]
  have "snd (extract_all_pages ?get) = Inl (ValueError (ResultsKeyNotFoundForPage 2))"
    by (simp add: serve_def)
  with req show ?thesis by (simp add: prod_eq_iff)
qed

text \<open>
  Claim C9. When the request of a page fails, the fetch raises the \<^verbatim>\<open>RequestException\<close>
  and returns no records, whatever the earlier pages gave; the failed page is the last
  request made, and no page is requested twice.
\<close>

theorem transport_failure:
  assumes "extract_all_pages get = (requested, outcome)"
    and "p \<in> set requested" and "get p = RequestFailed"
  shows "outcome = Inl RequestException \<and> last requested = p \<and> distinct requested"
proof -
  have bad: "\<not> has_results get p"
    using assms(3) by (simp add: has_results_def)
  have main: "outcome = Inl RequestException \<and> last requested = p
              \<and> (\<exists>k n. requested = [1] @ take k [2..n])"
  proof (cases "p = 1")
    case True
    with assms have "requested = [1] \<and> outcome = Inl RequestException"
      by (auto simp: extract_all_pages_def)
    then show ?thesis by (auto simp: True intro: exI[of _ 0])
  next
    case False
    from False assms(1,2) obtain rs n where
      run: "fetch_remaining get [2..n] [1] rs = (requested, outcome)"
      by (auto simp: extract_all_pages_def split: response.splits option.splits)
    from False have "p \<notin> set [1]" by simp
    from fetch_remaining_first_bad[OF run assms(2) this bad] assms(3)
    have "outcome = Inl RequestException \<and> last requested = p"
      by (simp add: page_error_def)
    with fetch_remaining_prefix[OF run] show ?thesis by blast
  qed
  then obtain k n where "requested = [1] @ take k [2..n]" by blast
  moreover have "distinct ([1] @ take k [2..n])"
    using set_take_subset[of k "[2..n]"] by (auto simp: distinct_take)
  ultimately have "distinct requested" by simp
  with main show ?thesis by simp
qed

theorem transport_failure_witness:
  "extract_all_pages
     (serve [Body \<lparr>results = Some [booking 1], total = Some 120\<rparr>,
             Body \<lparr>results = Some [booking 2], total = Some 120\<rparr>,
             RequestFailed])
   = ([1, 2, 3], Inl RequestException)"
proof -
  let ?get = "serve [Body \<lparr>results = Some [booking 1], total = Some 120\<rparr>,
             Body \<lparr>results = Some [booking 2], total = Some 120\<rparr>,
             RequestFailed]"
  have tp: "total_pages 120 = Some 3"
    by code_simp
  have run: "extract_all_pages ?get = (fst (extract_all_pages ?get), snd (extract_all_pages ?get))"
    by simp
  have req: "fst (extract_all_pages ?get) = [1, 2, 3]"
    by (simp add: extract_all_pages_def serve_def tp)
  then have "3 \<in> set (fst (extract_all_pages ?get))" by simp
  from transport_failure[OF run this]
  have "snd (extract_all_pages ?get) = Inl RequestException"
    by (simp add: serve_def)
  with req show ?thesis by (simp add: prod_eq_iff)
qed

section \<open>Properties of the transformation\<close>

subsection \<open>The transformation in closed form\<close>

lemma zip_with_map: "zip xs (map f xs) = map (\<lambda>x. (x, f x)) xs"
  by (induction xs) auto

lemma setitem_column:
  "c \<in> set (columns df) \<Longrightarrow>
   setitem df c (map f (rows df)) =
     \<lparr>columns = columns df, rows = map (\<lambda>x. (fst x, (snd x)(c := f x))) (rows df)\<rparr>"
  by (simp add: setitem_def zip_with_map o_def)

lemma select_rows_filter:
  "select_rows df (ge_series (map f (rows df)) (map g (rows df))) =
     df\<lparr>rows := filter (\<lambda>x. ge_cell (f x) (g x)) (rows df)\<rparr>"
proof -
  have "map fst (filter snd (zip xs (map (\<lambda>(x, y). ge_cell x y) (zip (map f xs) (map g xs)))))
        = filter (\<lambda>x. ge_cell (f x) (g x)) xs" for xs :: "(nat \<times> row) list"
    by (induction xs) auto
  then show ?thesis by (simp add: select_rows_def ge_series_def)
qed

lemma to_datetime_map: "to_datetime pd s = map (date_cell pd s) s"
  by (simp add: to_datetime_def date_cell_def)

lemma text_map: "str_title pd (str_strip (astype_str pd s)) = map (text_cell pd s) s"
  by (simp add: str_title_def str_strip_def astype_str_def text_cell_def)

lemma assign_step:
  assumes "c \<in> set (columns df)"
  shows "and_then (getitem df c) (\<lambda>s. k (setitem df c (map (g s) s))) =
           k \<lparr>columns = columns df,
              rows = map (\<lambda>x. (fst x, (snd x)(c := g (column (rows df) c) (snd x c)))) (rows df)\<rparr>"
proof -
  have "setitem df c (map (g (column (rows df) c)) (column (rows df) c)) =
          \<lparr>columns = columns df,
           rows = map (\<lambda>x. (fst x, (snd x)(c := g (column (rows df) c) (snd x c)))) (rows df)\<rparr>"
    using setitem_column[OF assms, of "\<lambda>x. g (column (rows df) c) (snd x c)"]
    by (simp add: column_def o_def)
  with assms show ?thesis
    by (simp add: and_then_def getitem_def column_def)
qed

lemma filter_step:
  assumes "a \<in> set (columns df)" and "b \<in> set (columns df)"
  shows "and_then (getitem df a) (\<lambda>co. and_then (getitem df b) (\<lambda>ci.
           Inr (select_rows df (ge_series co ci)))) =
         Inr (df\<lparr>rows := filter (\<lambda>x. ge_cell (snd x a) (snd x b)) (rows df)\<rparr>)"
  using assms by (simp add: and_then_def getitem_def select_rows_filter)

lemma transform_data_closed_form:
  assumes "set expected_columns \<subseteq> set (columns (DataFrame pd x))"
  shows "transform_data pd x =
           Inr \<lparr>columns = columns (DataFrame pd x), rows = cleaned pd (DataFrame pd x)\<rparr>"
proof -
  define df0 where "df0 = DataFrame pd x"
  define S where "S = deduplicated df0"
  define df2 where "df2 = df0\<lparr>rows := S\<rparr>"
  from assms have cols: "''booking_id'' \<in> set (columns df0)" "''check_in_date'' \<in> set (columns df0)"
    "''check_out_date'' \<in> set (columns df0)" "''owner_company'' \<in> set (columns df0)"
    "''owner_company_country'' \<in> set (columns df0)"
    by (simp_all add: expected_columns_def df0_def)
  have s1: "and_then (dropna ''booking_id'' df0) (\<lambda>df. and_then (drop_duplicates ''booking_id'' df) k) = k df2" for k :: "dataframe \<Rightarrow> transform_error + dataframe"
    using cols by (simp add: and_then_def dropna_def drop_duplicates_def df2_def S_def deduplicated_def)
  have c2: "columns df2 = columns df0" "rows df2 = S" by (simp_all add: df2_def)
  show ?thesis
    unfolding transform_data_def Let_def df0_def[symmetric] s1 to_datetime_map text_map
    apply (subst assign_step, simp add: c2 cols)
    apply (subst assign_step, simp add: c2 cols)
    apply (subst assign_step, simp add: c2 cols)
    apply (subst assign_step, simp add: c2 cols)
    apply (subst filter_step, simp add: c2 cols, simp add: c2 cols)
    apply (simp add: c2 cleaned_def S_def[symmetric] column_def o_def clean_row_def)
    done
qed

lemma dedup_step:
  assumes "''booking_id'' \<in> set (columns df)"
  shows "and_then (dropna ''booking_id'' df) (\<lambda>d. and_then (drop_duplicates ''booking_id'' d) k) =
           k (df\<lparr>rows := deduplicated df\<rparr>)"
  using assms
  by (simp add: and_then_def dropna_def drop_duplicates_def deduplicated_def)

lemma getitem_missing:
  "c \<notin> set (columns df) \<Longrightarrow> and_then (getitem df c) k = Inl (KeyError c)"
  by (simp add: and_then_def getitem_def)

lemma transform_data_missing:
  assumes "\<not> set expected_columns \<subseteq> set (columns (DataFrame pd x))"
  shows "\<exists>c. find (\<lambda>c. c \<notin> set (columns (DataFrame pd x))) expected_columns = Some c \<and>
           transform_data pd x = Inl (KeyError c)"
proof -
  define df0 where "df0 = DataFrame pd x"
  let ?cs = "set (columns df0)"
  consider (a) "''booking_id'' \<notin> ?cs"
    | (b) "''booking_id'' \<in> ?cs" "''check_in_date'' \<notin> ?cs"
    | (c) "''booking_id'' \<in> ?cs" "''check_in_date'' \<in> ?cs" "''check_out_date'' \<notin> ?cs"
    | (d) "''booking_id'' \<in> ?cs" "''check_in_date'' \<in> ?cs" "''check_out_date'' \<in> ?cs"
          "''owner_company'' \<notin> ?cs"
    | (e) "''booking_id'' \<in> ?cs" "''check_in_date'' \<in> ?cs" "''check_out_date'' \<in> ?cs"
          "''owner_company'' \<in> ?cs" "''owner_company_country'' \<notin> ?cs"
    using assms unfolding df0_def expected_columns_def by auto
  then show ?thesis
  proof cases
    case a
    then have "transform_data pd x = Inl (KeyError ''booking_id'')"
      by (simp add: transform_data_def Let_def df0_def and_then_def dropna_def)
    with a show ?thesis unfolding df0_def by (simp add: expected_columns_def)
  next
    case b
    have "transform_data pd x = Inl (KeyError ''check_in_date'')"
      unfolding transform_data_def Let_def df0_def[symmetric]
      apply (subst dedup_step, simp add: b)
      apply (subst getitem_missing, simp add: b)
      apply simp
      done
    with b show ?thesis unfolding df0_def by (simp add: expected_columns_def)
  next
    case c
    have "transform_data pd x = Inl (KeyError ''check_out_date'')"
      unfolding transform_data_def Let_def df0_def[symmetric] to_datetime_map text_map
      apply (subst dedup_step, simp add: c)
      apply (subst assign_step, simp add: c)
      apply (subst getitem_missing, simp add: c)
      apply simp
      done
    with c show ?thesis unfolding df0_def by (simp add: expected_columns_def)
  next
    case d
    have "transform_data pd x = Inl (KeyError ''owner_company'')"
      unfolding transform_data_def Let_def df0_def[symmetric] to_datetime_map text_map
      apply (subst dedup_step, simp add: d)
      apply (subst assign_step, simp add: d)
      apply (subst assign_step, simp add: d)
      apply (subst getitem_missing, simp add: d)
      apply simp
      done
    with d show ?thesis unfolding df0_def by (simp add: expected_columns_def)
  next
    case e
    have "transform_data pd x = Inl (KeyError ''owner_company_country'')"
      unfolding transform_data_def Let_def df0_def[symmetric] to_datetime_map text_map
      apply (subst dedup_step, simp add: e)
      apply (subst assign_step, simp add: e)
      apply (subst assign_step, simp add: e)
      apply (subst assign_step, simp add: e)
      apply (subst getitem_missing, simp add: e)
      apply simp
      done
    with e show ?thesis unfolding df0_def by (simp add: expected_columns_def)
  qed
qed

subsection \<open>Columns and the rows kept by deduplication\<close>

lemma set_union_keys: "set (union_keys seen ks) = set seen \<union> set ks"
  by (induction ks arbitrary: seen) auto

lemma columns_Records:
  "set (columns (DataFrame pd (Records records))) = (\<Union>r\<in>set records. fst ` set r)"
  by (auto simp: set_union_keys)

lemma keep_last_subseq: "subseq (keep_last c xs) xs"
  by (induction xs) auto

lemma keep_last_subset: "set (keep_last c xs) \<subseteq> set xs"
  by (induction xs) auto

lemma keep_last_ids: "(\<lambda>y. snd y c) ` set (keep_last c xs) = (\<lambda>y. snd y c) ` set xs"
  by (induction xs) auto

lemma keep_last_distinct: "distinct (map (\<lambda>y. snd y c) (keep_last c xs))"
proof (induction xs)
  case Nil
  then show ?case by simp
next
  case (Cons x xs)
  have "snd x c \<notin> (\<lambda>y. snd y c) ` set xs \<Longrightarrow> snd x c \<notin> (\<lambda>y. snd y c) ` set (keep_last c xs)"
    by (simp add: keep_last_ids)
  with Cons show ?case by auto
qed

lemma keep_last_is_last:
  "x \<in> set (keep_last c xs) \<Longrightarrow>
   \<exists>before after. xs = before @ x # after \<and> snd x c \<notin> (\<lambda>y. snd y c) ` set after"
proof (induction xs)
  case Nil
  then show ?case by simp
next
  case (Cons a xs)
  show ?case
  proof (cases "x \<in> set (keep_last c xs)")
    case True
    from Cons.IH[OF this] obtain before after where
      "xs = before @ x # after" "snd x c \<notin> (\<lambda>y. snd y c) ` set after" by blast
    then have "a # xs = (a # before) @ x # after \<and> snd x c \<notin> (\<lambda>y. snd y c) ` set after"
      by simp
    then show ?thesis by blast
  next
    case False
    with Cons.prems have "x = a" "snd a c \<notin> (\<lambda>y. snd y c) ` set xs"
      by (auto split: if_splits)
    then have "a # xs = [] @ x # xs \<and> snd x c \<notin> (\<lambda>y. snd y c) ` set xs" by simp
    then show ?thesis by blast
  qed
qed

lemma keep_last_keeps_last:
  "xs = before @ x # after \<Longrightarrow> snd x c \<notin> (\<lambda>y. snd y c) ` set after \<Longrightarrow>
   x \<in> set (keep_last c xs)"
proof (induction before arbitrary: xs)
  case Nil
  then show ?case by auto
next
  case (Cons a before)
  then have "x \<in> set (keep_last c (before @ x # after))" by simp
  with Cons.prems(1) show ?case by simp
qed

lemma keep_last_distinct_id:
  "distinct (map (\<lambda>y. snd y c) xs) \<Longrightarrow> keep_last c xs = xs"
  by (induction xs) auto

lemma subseq_set_aux: "subseq xs ys \<Longrightarrow> set xs \<subseteq> set ys"
  by (induction rule: list_emb.induct) auto

lemma subseq_sorted_wrt:
  "subseq xs ys \<Longrightarrow> sorted_wrt P ys \<Longrightarrow> sorted_wrt P xs"
proof (induction rule: list_emb.induct)
  case (list_emb_Nil ys)
  then show ?case by simp
next
  case (list_emb_Cons xs ys y)
  then show ?case by simp
next
  case (list_emb_Cons2 x y xs ys)
  from list_emb_Cons2.hyps(2) have "set xs \<subseteq> set ys" by (rule subseq_set_aux)
  with list_emb_Cons2 show ?case by auto
qed

subsection \<open>Text normalisation\<close>

lemma stripped_strip: "stripped (strip s)"
proof -
  define t where "t = dropWhile isspace s"
  define w where "w = dropWhile isspace (rev t)"
  have s: "strip s = rev w" by (simp add: strip_def t_def w_def)
  show ?thesis
  proof (cases "w = []")
    case True
    with s show ?thesis by (simp add: stripped_def)
  next
    case False
    then have hw: "\<not> isspace (hd w)" unfolding w_def by (rule hd_dropWhile)
    from False have tne: "t \<noteq> []" by (auto simp: w_def)
    then have ht: "\<not> isspace (hd t)" unfolding t_def by (rule hd_dropWhile)
    from tne have "hd t \<in> set (rev t)" by simp
    from dropWhile_last[of "hd t" "rev t" isspace, OF this ht]
    have "last w = last (rev t)" by (simp add: w_def)
    with tne have lw: "last w = hd t" by (simp add: last_rev)
    from False have "hd (rev w) = last w" "last (rev w) = hd w"
      by (simp_all add: hd_rev last_rev)
    with hw ht lw s show ?thesis by (simp add: stripped_def)
  qed
qed

lemma strip_stripped: "stripped s \<Longrightarrow> strip s = s"
proof -
  assume st: "stripped s"
  show ?thesis
  proof (cases "s = []")
    case True
    then show ?thesis by (simp add: strip_def)
  next
    case False
    with st have a: "\<not> isspace (hd s)" "\<not> isspace (last s)" by (simp_all add: stripped_def)
    from a(1) have d1: "dropWhile isspace s = s" by (simp add: dropWhile_eq_self_iff)
    from False a(2) have "dropWhile isspace (rev s) = rev s"
      by (simp add: dropWhile_eq_self_iff hd_rev)
    with d1 show ?thesis by (simp add: strip_def)
  qed
qed

lemma isascii_strip: "isascii s \<Longrightarrow> isascii (strip s)"
proof -
  assume a: "isascii s"
  have "x \<in> set s" if "x \<in> set (strip s)" for x
  proof -
    from that have "x \<in> set (dropWhile isspace (rev (dropWhile isspace s)))"
      by (simp add: strip_def)
    then have "x \<in> set (rev (dropWhile isspace s))" by (rule set_dropWhileD)
    then have "x \<in> set (dropWhile isspace s)" by simp
    then show ?thesis by (rule set_dropWhileD)
  qed
  with a show ?thesis by (auto simp: isascii_def list_all_iff)
qed

lemma title_from_ascii_Cons:
  "c < 128 \<Longrightarrow>
   title_from pd before b (c # cs) =
     ascii_title b c # title_from pd (before @ [c]) (isupper c \<or> islower c) cs"
  by (simp add: ascii_title_def title_full_def lower_full_def iscased_def)

lemma ascii_title_facts:
  "c < 128 \<Longrightarrow> ascii_title b c < 128"
  "isupper (ascii_title b c) \<or> islower (ascii_title b c) \<longleftrightarrow> isupper c \<or> islower c"
  "ascii_title b (ascii_title b c) = ascii_title b c"
  "c < 128 \<Longrightarrow> isspace (ascii_title b c) = isspace c"
  by (auto simp: ascii_title_def isupper_def islower_def isspace_def)

lemma isascii_Cons: "isascii (c # cs) \<longleftrightarrow> c < 128 \<and> isascii cs"
  by (simp add: isascii_def)

lemma isascii_title_from: "isascii s \<Longrightarrow> isascii (title_from pd before b s)"
proof (induction s arbitrary: before b)
  case Nil
  then show ?case by simp
next
  case (Cons c cs)
  then have c: "c < 128" and cs: "isascii cs" by (simp_all add: isascii_Cons)
  from Cons.IH[OF cs] c show ?case
    by (simp add: title_from_ascii_Cons isascii_Cons ascii_title_facts(1) del: title_from.simps)
qed

lemma title_from_idem:
  "isascii s \<Longrightarrow>
   title_from pd before' b (title_from pd before b s) = title_from pd before b s"
proof (induction s arbitrary: before before' b)
  case Nil
  then show ?case by simp
next
  case (Cons c cs)
  then have c: "c < 128" and cs: "isascii cs" by (simp_all add: isascii_Cons)
  from c have x: "ascii_title b c < 128" by (rule ascii_title_facts(1))
  show ?case
    unfolding title_from_ascii_Cons[OF c] title_from_ascii_Cons[OF x]
    by (simp only: ascii_title_facts(2,3) Cons.IH[OF cs])
qed

lemma title_idem: "isascii s \<Longrightarrow> title pd (title pd s) = title pd s"
  by (simp add: title_def title_from_idem)

lemma title_from_Nil: "isascii s \<Longrightarrow> title_from pd before b s = [] \<longleftrightarrow> s = []"
  by (cases s) (simp_all add: isascii_Cons title_from_ascii_Cons del: title_from.simps(2))

lemma isspace_hd_title_from:
  "isascii s \<Longrightarrow> s \<noteq> [] \<Longrightarrow> isspace (hd (title_from pd before b s)) = isspace (hd s)"
  by (cases s)
     (simp_all add: isascii_Cons title_from_ascii_Cons ascii_title_facts(4) del: title_from.simps(2))

lemma isspace_last_title_from:
  "isascii s \<Longrightarrow> s \<noteq> [] \<Longrightarrow> isspace (last (title_from pd before b s)) = isspace (last s)"
proof (induction s arbitrary: before b)
  case Nil
  then show ?case by simp
next
  case (Cons c cs)
  then have c: "c < 128" and cs: "isascii cs" by (simp_all add: isascii_Cons)
  show ?case
  proof (cases "cs = []")
    case True
    with c show ?thesis
      by (simp add: title_from_ascii_Cons ascii_title_facts(4) del: title_from.simps(2))
  next
    case False
    with Cons.IH[OF cs] c cs show ?thesis
      by (simp add: title_from_ascii_Cons title_from_Nil del: title_from.simps(2))
  qed
qed

lemma stripped_title: "isascii s \<Longrightarrow> stripped s \<Longrightarrow> stripped (title pd s)"
  by (auto simp: stripped_def title_def title_from_Nil isspace_last_title_from
      isspace_hd_title_from)

lemma normalise_idem:
  assumes "isascii s"
  shows "title pd (strip (title pd (strip s))) = title pd (strip s)"
proof -
  from assms have a: "isascii (strip s)" by (rule isascii_strip)
  have "stripped (title pd (strip s))"
    by (rule stripped_title[OF a stripped_strip])
  then have "strip (title pd (strip s)) = title pd (strip s)" by (rule strip_stripped)
  with title_idem[OF a] show ?thesis by simp
qed

subsection \<open>Errors\<close>

text \<open>
  Claim C8. The transformation of a list of records raises (a \<^verbatim>\<open>KeyError\<close>) exactly when
  one of the five expected fields is a key of no record of the input, and the error names
  the first such field in the order the code reads them. Nothing else makes it raise: with
  every expected field present somewhere, bad dates, dates in the wrong order, duplicate
  and null ids only remove rows.
\<close>

theorem schema_error_iff:
  "((\<exists>e. transform_data pd (Records records) = Inl e) \<longleftrightarrow>
      (\<exists>c\<in>set expected_columns. \<forall>r\<in>set records. c \<notin> fst ` set r))
   \<and> (\<forall>e. transform_data pd (Records records) = Inl e \<longrightarrow>
         (\<exists>c. e = KeyError c \<and>
              find (\<lambda>c. \<forall>r\<in>set records. c \<notin> fst ` set r) expected_columns = Some c))"
proof (cases "set expected_columns \<subseteq> set (columns (DataFrame pd (Records records)))")
  case True
  from transform_data_closed_form[OF True]
  have ok: "\<And>e. transform_data pd (Records records) \<noteq> Inl e" by simp
  from True have "\<not> (\<exists>c\<in>set expected_columns. \<forall>r\<in>set records. c \<notin> fst ` set r)"
    unfolding columns_Records by blast
  with ok show ?thesis by blast
next
  case False
  have eq: "(\<lambda>c. c \<notin> set (columns (DataFrame pd (Records records)))) =
            (\<lambda>c. \<forall>r\<in>set records. c \<notin> fst ` set r)"
    unfolding columns_Records by blast
  from transform_data_missing[OF False] obtain c where
    c: "find (\<lambda>c. \<forall>r\<in>set records. c \<notin> fst ` set r) expected_columns = Some c"
       "transform_data pd (Records records) = Inl (KeyError c)"
    unfolding eq by blast
  from c(1) have "c \<in> set expected_columns \<and> (\<forall>r\<in>set records. c \<notin> fst ` set r)"
    by (auto simp: find_Some_iff)
  with c show ?thesis by auto
qed

theorem schema_error_iff_witness:
  "transform_data iso_pandas (Records [booking 1, booking 2]) = Inl (KeyError ''check_in_date'')
   \<and> (\<forall>e. transform_data iso_pandas
             (Records [record5 (JInt 1) ''2024-01-01'' ''2024-01-05'' ''a'' ''b'',
                       record5 (JInt 1) ''not-a-date'' ''2024-01-05'' ''a'' ''b'',
                       record5 JNull ''2024-01-01'' ''2024-01-05'' ''a'' ''b'',
                       record5 (JInt 2) ''2024-01-09'' ''2024-01-05'' ''a'' ''b'']) \<noteq> Inl e)"
proof -
  let ?soft = "[record5 (JInt 1) ''2024-01-01'' ''2024-01-05'' ''a'' ''b'',
                       record5 (JInt 1) ''not-a-date'' ''2024-01-05'' ''a'' ''b'',
                       record5 JNull ''2024-01-01'' ''2024-01-05'' ''a'' ''b'',
                       record5 (JInt 2) ''2024-01-09'' ''2024-01-05'' ''a'' ''b'']"
  have "\<exists>c\<in>set expected_columns. \<forall>r\<in>set [booking 1, booking 2]. c \<notin> fst ` set r"
    by (simp add: expected_columns_def booking_def)
  with schema_error_iff[of iso_pandas "[booking 1, booking 2]"]
  obtain e c where e: "transform_data iso_pandas (Records [booking 1, booking 2]) = Inl e"
    "e = KeyError c"
    "find (\<lambda>c. \<forall>r\<in>set [booking 1, booking 2]. c \<notin> fst ` set r) expected_columns = Some c"
    by blast
  from e(3) have "c = ''check_in_date''"
    by (simp add: expected_columns_def booking_def)
  with e have a: "transform_data iso_pandas (Records [booking 1, booking 2]) = Inl (KeyError ''check_in_date'')"
    by simp
  have "\<not> (\<exists>c\<in>set expected_columns. \<forall>r\<in>set ?soft. c \<notin> fst ` set r)"
    by (simp add: expected_columns_def record5_def)
  with schema_error_iff[of iso_pandas ?soft]
  have b: "\<forall>e. transform_data iso_pandas (Records ?soft) \<noteq> Inl e" by blast
  from a b show ?thesis by blast
qed

subsection \<open>The rows of the output\<close>

lemma transform_data_Inr:
  assumes "transform_data pd x = Inr df"
  shows "set expected_columns \<subseteq> set (columns (DataFrame pd x))"
    and "columns df = columns (DataFrame pd x)"
    and "rows df = cleaned pd (DataFrame pd x)"
proof -
  show cols: "set expected_columns \<subseteq> set (columns (DataFrame pd x))"
  proof (rule ccontr)
    assume "\<not> set expected_columns \<subseteq> set (columns (DataFrame pd x))"
    from transform_data_missing[OF this] assms show False by auto
  qed
  from transform_data_closed_form[OF cols] assms
  have "df = \<lparr>columns = columns (DataFrame pd x), rows = cleaned pd (DataFrame pd x)\<rparr>" by simp
  then show "columns df = columns (DataFrame pd x)" "rows df = cleaned pd (DataFrame pd x)"
    by simp_all
qed

lemma dedup_subseq: "subseq (deduplicated df) (rows df)"
proof -
  have "subseq (deduplicated df) (filter (\<lambda>(i, r). \<not> isna (r ''booking_id'')) (rows df))"
    unfolding deduplicated_def by (rule keep_last_subseq)
  also have "subseq \<dots> (rows df)" by simp
  finally show ?thesis .
qed

lemma dedup_notna: "x \<in> set (deduplicated df) \<Longrightarrow> \<not> isna (snd x ''booking_id'')"
  using keep_last_subset[of "''booking_id''" "filter (\<lambda>(i, r). \<not> isna (r ''booking_id'')) (rows df)"]
  by (auto simp: deduplicated_def)

lemma dedup_distinct: "distinct (map (\<lambda>y. snd y ''booking_id'') (deduplicated df))"
  unfolding deduplicated_def by (rule keep_last_distinct)

lemma keep_last_filter_is_last:
  "x \<in> set (keep_last c (filter (\<lambda>y. \<not> isna (snd y c)) xs)) \<Longrightarrow>
   \<exists>before after. xs = before @ x # after \<and> snd x c \<notin> (\<lambda>y. snd y c) ` set after"
proof (induction xs)
  case Nil
  then show ?case by simp
next
  case (Cons a xs)
  let ?P = "\<lambda>y. \<not> isna (snd y c)"
  show ?case
  proof (cases "x \<in> set (keep_last c (filter ?P xs))")
    case True
    from Cons.IH[OF this] obtain before after where
      "xs = before @ x # after" "snd x c \<notin> (\<lambda>y. snd y c) ` set after" by blast
    then have "a # xs = (a # before) @ x # after \<and> snd x c \<notin> (\<lambda>y. snd y c) ` set after"
      by simp
    then show ?thesis by blast
  next
    case False
    with Cons.prems have xa: "x = a" and pa: "\<not> isna (snd a c)"
      and nf: "snd a c \<notin> (\<lambda>y. snd y c) ` set (filter ?P xs)"
      by (auto split: if_splits)
    have "snd a c \<notin> (\<lambda>y. snd y c) ` set xs"
    proof
      assume "snd a c \<in> (\<lambda>y. snd y c) ` set xs"
      then obtain z where z: "z \<in> set xs" "snd z c = snd a c" by auto
      with pa have "z \<in> set (filter ?P xs)" by simp
      then have "snd z c \<in> (\<lambda>y. snd y c) ` set (filter ?P xs)" by (rule imageI)
      with z(2) nf show False by simp
    qed
    with xa have "a # xs = [] @ x # xs \<and> snd x c \<notin> (\<lambda>y. snd y c) ` set xs" by simp
    then show ?thesis by blast
  qed
qed

lemma dedup_is_last:
  "x \<in> set (deduplicated df) \<Longrightarrow>
   \<exists>before after. rows df = before @ x # after
      \<and> snd x ''booking_id'' \<notin> (\<lambda>y. snd y ''booking_id'') ` set after"
  unfolding deduplicated_def case_prod_beta by (rule keep_last_filter_is_last)

lemma dedup_keeps_last:
  assumes "rows df = before @ x # after" and "\<not> isna (snd x ''booking_id'')"
    and "snd x ''booking_id'' \<notin> (\<lambda>y. snd y ''booking_id'') ` set after"
  shows "x \<in> set (deduplicated df)"
proof -
  let ?P = "\<lambda>(i, r). \<not> isna (r ''booking_id'')"
  from assms(1,2) have f: "filter ?P (rows df) = filter ?P before @ x # filter ?P after"
    by (simp add: case_prod_beta)
  from assms(3) have "snd x ''booking_id'' \<notin> (\<lambda>y. snd y ''booking_id'') ` set (filter ?P after)"
    by auto
  from keep_last_keeps_last[OF f this] show ?thesis by (simp add: deduplicated_def)
qed

lemma clean_row_booking_id: "clean_row pd S r ''booking_id'' = r ''booking_id''"
  by (simp add: clean_row_def)

lemma cleaned_iff:
  "y \<in> set (cleaned pd df) \<longleftrightarrow>
     (\<exists>x\<in>set (deduplicated df). y = (fst x, clean_row pd (deduplicated df) (snd x))
        \<and> ge_cell (snd y ''check_out_date'') (snd y ''check_in_date''))"
  by (auto simp: cleaned_def)

lemma cleaned_subseq:
  "subseq (map fst (cleaned pd df)) (map fst (rows df))"
proof -
  let ?S = "deduplicated df"
  let ?m = "map (\<lambda>x. (fst x, clean_row pd ?S (snd x))) ?S"
  have "subseq (cleaned pd df) ?m" by (simp add: cleaned_def)
  then have "subseq (map fst (cleaned pd df)) (map fst ?m)" by (rule subseq_map)
  also have "map fst ?m = map fst ?S" by (simp add: o_def)
  also have "subseq (map fst ?S) (map fst (rows df))" by (rule subseq_map[OF dedup_subseq])
  finally show ?thesis .
qed

lemma cleaned_ids_distinct:
  "distinct (map (\<lambda>y. snd y ''booking_id'') (cleaned pd df))"
proof -
  let ?S = "deduplicated df"
  let ?m = "map (\<lambda>x. (fst x, clean_row pd ?S (snd x))) ?S"
  have "map (\<lambda>y. snd y ''booking_id'') ?m = map (\<lambda>y. snd y ''booking_id'') ?S"
    by (simp add: o_def clean_row_booking_id)
  with dedup_distinct[of df] have "distinct (map (\<lambda>y. snd y ''booking_id'') ?m)"
    by (simp only:)
  then show ?thesis unfolding cleaned_def by (rule distinct_map_filter)
qed

lemma output_notna:
  assumes "transform_data pd x = Inr df" and "r \<in> set (rows df)"
  shows "\<not> isna (snd r ''booking_id'')"
  using assms(2) dedup_notna[of _ "DataFrame pd x"]
  unfolding transform_data_Inr(3)[OF assms(1)]
  by (auto simp: cleaned_iff clean_row_booking_id)

lemma output_ids_distinct:
  assumes "transform_data pd x = Inr df"
  shows "distinct (map (\<lambda>r. snd r ''booking_id'') (rows df))"
  unfolding transform_data_Inr(3)[OF assms] by (rule cleaned_ids_distinct)

lemma output_row_origin:
  assumes "transform_data pd x = Inr df" and "r \<in> set (rows df)"
  shows "\<exists>before r0 after.
             rows (DataFrame pd x) = before @ r0 # after
           \<and> r = (fst r0, clean_row pd (deduplicated (DataFrame pd x)) (snd r0))
           \<and> snd r ''booking_id'' = snd r0 ''booking_id''
           \<and> snd r0 ''booking_id'' \<notin> (\<lambda>y. snd y ''booking_id'') ` set after"
proof -
  let ?df0 = "DataFrame pd x"
  let ?S = "deduplicated ?df0"
  from assms(2) obtain r0 where r0: "r0 \<in> set ?S" "r = (fst r0, clean_row pd ?S (snd r0))"
    unfolding transform_data_Inr(3)[OF assms(1)] cleaned_iff by blast
  from dedup_is_last[OF r0(1)] obtain before after where
    "rows ?df0 = before @ r0 # after"
    "snd r0 ''booking_id'' \<notin> (\<lambda>y. snd y ''booking_id'') ` set after" by blast
  moreover from r0(2) have "snd r ''booking_id'' = snd r0 ''booking_id''"
    by (simp add: clean_row_booking_id)
  ultimately show ?thesis using r0(2) by blast
qed

text \<open>
  Claim C2, as amended. No row of the output has a null or missing \<^verbatim>\<open>booking_id\<close>, and no
  two rows share one. The ids are compared as the table built from the input holds them
  (an integer id of a column that pandas stores as floats is the float nearest to it).
  Every row of the output comes from the last row of the input with its \<^verbatim>\<open>booking_id\<close>:
  no later row of the input has it. After the null removal and the deduplication the ids
  are distinct, and the last row of every id that is not null is among the rows kept.
  (The example of the claim is the witness below.)
\<close>

theorem dedup_last_wins:
  assumes "transform_data pd x = Inr df"
  shows "(\<forall>r\<in>set (rows df). \<not> isna (snd r ''booking_id''))
       \<and> distinct (map (\<lambda>r. snd r ''booking_id'') (rows df))
       \<and> (\<forall>r\<in>set (rows df). \<exists>before r0 after.
             rows (DataFrame pd x) = before @ r0 # after
           \<and> r = (fst r0, clean_row pd (deduplicated (DataFrame pd x)) (snd r0))
           \<and> snd r ''booking_id'' = snd r0 ''booking_id''
           \<and> snd r0 ''booking_id'' \<notin> (\<lambda>y. snd y ''booking_id'') ` set after)
       \<and> distinct (map (\<lambda>r. snd r ''booking_id'') (deduplicated (DataFrame pd x)))
       \<and> (\<forall>before r0 after.
             rows (DataFrame pd x) = before @ r0 # after
           \<and> \<not> isna (snd r0 ''booking_id'')
           \<and> snd r0 ''booking_id'' \<notin> (\<lambda>y. snd y ''booking_id'') ` set after
           \<longrightarrow> r0 \<in> set (deduplicated (DataFrame pd x)))"
proof -
  let ?df0 = "DataFrame pd x"
  have a: "\<forall>r\<in>set (rows df). \<not> isna (snd r ''booking_id'')"
    using output_notna[OF assms] by blast
  have b: "distinct (map (\<lambda>r. snd r ''booking_id'') (rows df))"
    by (rule output_ids_distinct[OF assms])
  have c: "\<forall>r\<in>set (rows df). \<exists>before r0 after.
             rows ?df0 = before @ r0 # after
           \<and> r = (fst r0, clean_row pd (deduplicated ?df0) (snd r0))
           \<and> snd r ''booking_id'' = snd r0 ''booking_id''
           \<and> snd r0 ''booking_id'' \<notin> (\<lambda>y. snd y ''booking_id'') ` set after"
    using output_row_origin[OF assms] by blast
  have d: "distinct (map (\<lambda>r. snd r ''booking_id'') (deduplicated ?df0))"
    by (rule dedup_distinct)
  have e: "\<forall>before r0 after.
             rows ?df0 = before @ r0 # after
           \<and> \<not> isna (snd r0 ''booking_id'')
           \<and> snd r0 ''booking_id'' \<notin> (\<lambda>y. snd y ''booking_id'') ` set after
           \<longrightarrow> r0 \<in> set (deduplicated ?df0)"
    using dedup_keeps_last[of ?df0] by blast
  from a b c d e show ?thesis by blast
qed

theorem dedup_last_wins_witness:
  "map (\<lambda>r. (fst r, snd r ''booking_id'', snd r ''check_in_date''))
     (rows_of (transform_data iso_pandas
        (Records [record5 (JInt 1) ''2024-01-01'' ''2024-01-05'' ''acme'' ''uk'',
                  record5 (JInt 1) ''2024-02-01'' ''2024-02-05'' ''acme'' ''uk''])))
   = [(1, PyInt 1, Timestamp 1706745600000000000)]
   \<and> distinct (map (\<lambda>r. snd r ''booking_id'')
     (rows_of (transform_data iso_pandas
        (Records [record5 (JInt 1) ''2024-01-01'' ''2024-01-05'' ''acme'' ''uk'',
                  record5 (JInt 1) ''2024-02-01'' ''2024-02-05'' ''acme'' ''uk'']))))"
proof -
  let ?x = "Records [record5 (JInt 1) ''2024-01-01'' ''2024-01-05'' ''acme'' ''uk'',
                  record5 (JInt 1) ''2024-02-01'' ''2024-02-05'' ''acme'' ''uk'']"
  have cols: "set expected_columns \<subseteq> set (columns (DataFrame iso_pandas ?x))"
    by (simp add: expected_columns_def record5_def)
  note run = transform_data_closed_form[OF cols]
  from dedup_last_wins[OF run]
  have "distinct (map (\<lambda>r. snd r ''booking_id'') (rows_of (transform_data iso_pandas ?x)))"
    unfolding run rows_of_def by simp
  moreover have "map (\<lambda>r. (fst r, snd r ''booking_id'', snd r ''check_in_date''))
     (rows_of (transform_data iso_pandas ?x)) = [(1, PyInt 1, Timestamp 1706745600000000000)]"
    by code_simp
  ultimately show ?thesis by simp
qed

text \<open>
  The counterexample to claim C2 as stated. Three records carry the ids
  \<open>2 ^ 53 + 1\<close>, \<open>2 ^ 53\<close> and null. Because of the null, pandas stores the id column as
  floats, and both integers are the float \<open>2 ^ 53\<close> there: the first record, the only one
  with its \<^verbatim>\<open>booking_id\<close>, is dropped as a duplicate of the second, and the output is the
  one row of the second record.
\<close>

theorem distinct_ids_counterexample:
  "column (rows_of (transform_data iso_pandas
        (Records [record5 (JInt 9007199254740993) ''2024-01-01'' ''2024-01-05'' ''acme'' ''uk'',
                  record5 (JInt 9007199254740992) ''2024-02-01'' ''2024-02-05'' ''acme'' ''uk'',
                  record5 JNull ''2024-03-01'' ''2024-03-05'' ''acme'' ''uk''])))
     ''booking_id''
   = [PyFloat 9007199254740992]
   \<and> map fst (rows_of (transform_data iso_pandas
        (Records [record5 (JInt 9007199254740993) ''2024-01-01'' ''2024-01-05'' ''acme'' ''uk'',
                  record5 (JInt 9007199254740992) ''2024-02-01'' ''2024-02-05'' ''acme'' ''uk'',
                  record5 JNull ''2024-03-01'' ''2024-03-05'' ''acme'' ''uk''])))
   = [1]"
  by code_simp

lemma ge_date_cell:
  "ge_cell (date_cell pd col2 c2) (date_cell pd col1 c1) \<longleftrightarrow>
     (\<exists>a b. parse_cell pd col1 c1 = Some a \<and> parse_cell pd col2 c2 = Some b \<and> a \<le> b)"
  by (auto simp: date_cell_def split: option.splits)

lemma clean_row_dates:
  "clean_row pd S r ''check_in_date'' = date_cell pd (column S ''check_in_date'') (r ''check_in_date'')"
  "clean_row pd S r ''check_out_date'' = date_cell pd (column S ''check_out_date'') (r ''check_out_date'')"
  by (simp_all add: clean_row_def)

lemma clean_row_text:
  "clean_row pd S r ''owner_company'' = text_cell pd (column S ''owner_company'') (r ''owner_company'')"
  "clean_row pd S r ''owner_company_country'' =
     text_cell pd (column S ''owner_company_country'') (r ''owner_company_country'')"
  by (simp_all add: clean_row_def)

text \<open>
  Claim C3. With the five expected columns present the transformation returns a table and
  raises nothing; a row left by the null removal and the deduplication is in that table
  exactly when its check-in and its check-out both parse to a date and the check-out is not
  before the check-in.
\<close>

theorem date_filter_iff:
  assumes "set expected_columns \<subseteq> set (columns (DataFrame pd x))"
  shows "\<exists>df. transform_data pd x = Inr df
       \<and> (\<forall>r0\<in>set (deduplicated (DataFrame pd x)).
            (fst r0, clean_row pd (deduplicated (DataFrame pd x)) (snd r0)) \<in> set (rows df) \<longleftrightarrow>
            (\<exists>a b. parse_cell pd (column (deduplicated (DataFrame pd x)) ''check_in_date'')
                      (snd r0 ''check_in_date'') = Some a
                 \<and> parse_cell pd (column (deduplicated (DataFrame pd x)) ''check_out_date'')
                      (snd r0 ''check_out_date'') = Some b
                 \<and> a \<le> b))"
proof -
  let ?S = "deduplicated (DataFrame pd x)"
  let ?df = "\<lparr>columns = columns (DataFrame pd x), rows = cleaned pd (DataFrame pd x)\<rparr>"
  have run: "transform_data pd x = Inr ?df"
    by (rule transform_data_closed_form[OF assms])
  have "(fst r0, clean_row pd ?S (snd r0)) \<in> set (cleaned pd (DataFrame pd x)) \<longleftrightarrow>
          (\<exists>a b. parse_cell pd (column ?S ''check_in_date'') (snd r0 ''check_in_date'') = Some a
               \<and> parse_cell pd (column ?S ''check_out_date'') (snd r0 ''check_out_date'') = Some b
               \<and> a \<le> b)"
    if "r0 \<in> set ?S" for r0
    unfolding cleaned_iff ge_date_cell[symmetric] clean_row_dates[symmetric]
    using that by auto
  with run show ?thesis by simp
qed

theorem date_filter_iff_witness:
  "(\<exists>df. transform_data iso_pandas
        (Records [record5 (JInt 1) ''not-a-date'' ''2024-01-05'' ''acme'' ''uk'',
                  record5 (JInt 2) ''2024-01-09'' ''2024-01-05'' ''acme'' ''uk'',
                  record5 (JInt 3) ''2024-01-01'' ''2024-01-05'' ''acme'' ''uk'']) = Inr df)
   \<and> map (\<lambda>r. (fst r, snd r ''booking_id'', snd r ''check_in_date'', snd r ''check_out_date''))
     (rows_of (transform_data iso_pandas
        (Records [record5 (JInt 1) ''not-a-date'' ''2024-01-05'' ''acme'' ''uk'',
                  record5 (JInt 2) ''2024-01-09'' ''2024-01-05'' ''acme'' ''uk'',
                  record5 (JInt 3) ''2024-01-01'' ''2024-01-05'' ''acme'' ''uk''])))
   = [(2, PyInt 3, Timestamp 1704067200000000000, Timestamp 1704412800000000000)]"
proof -
  let ?x = "Records [record5 (JInt 1) ''not-a-date'' ''2024-01-05'' ''acme'' ''uk'',
                  record5 (JInt 2) ''2024-01-09'' ''2024-01-05'' ''acme'' ''uk'',
                  record5 (JInt 3) ''2024-01-01'' ''2024-01-05'' ''acme'' ''uk'']"
  have cols: "set expected_columns \<subseteq> set (columns (DataFrame iso_pandas ?x))"
    by (simp add: expected_columns_def record5_def)
  from date_filter_iff[OF cols]
  have "\<exists>df. transform_data iso_pandas ?x = Inr df" by blast
  moreover have "map (\<lambda>r. (fst r, snd r ''booking_id'', snd r ''check_in_date'', snd r ''check_out_date''))
     (rows_of (transform_data iso_pandas ?x))
     = [(2, PyInt 3, Timestamp 1704067200000000000, Timestamp 1704412800000000000)]"
    by code_simp
  ultimately show ?thesis by simp
qed



text \<open>
  A JSON null is not an absent field: in a column that holds a string, pandas keeps it as
  \<^verbatim>\<open>None\<close>, and \<^verbatim>\<open>astype(str)\<close> prints that as \<^verbatim>\<open>None\<close>.
\<close>

lemma null_company_prints_None:
  "map (\<lambda>r. snd r ''owner_company'')
     (rows_of (transform_data iso_pandas
        (Records [record5 (JInt 1) ''2024-01-01'' ''2024-01-05'' ''acme'' ''uk'',
                  [(''booking_id'', JInt 2), (''check_in_date'', JStr (ascii ''2024-01-01'')),
                   (''check_out_date'', JStr (ascii ''2024-01-05'')), (''owner_company'', JNull),
                   (''owner_company_country'', JStr (ascii ''uk''))]])))
   = [PyStr (ascii ''Acme''), PyStr (ascii ''None'')]"
  by code_simp

lemma rows_Records_labels:
  "map fst (rows (DataFrame pd (Records records))) = [0..<length records]"
proof -
  have "map fst (map (\<lambda>(i, r). (i, f i r)) (zip [0..<length records] records)) =
        [0..<length records]" for f :: "nat \<Rightarrow> raw_record \<Rightarrow> row"
    by (simp add: o_def case_prod_beta)
  then show ?thesis by simp
qed

text \<open>
  Claim C10. The index labels of the output, which are positions in the input list,
  increase strictly: the rows keep the relative order of the input, and there are no more
  of them than records in the input. A row stands at the position of the last record with
  its \<^verbatim>\<open>booking_id\<close>.
\<close>

theorem order_preserved:
  assumes "transform_data pd (Records records) = Inr df"
  shows "subseq (map fst (rows df)) [0..<length records]
       \<and> sorted_wrt (<) (map fst (rows df))
       \<and> length (rows df) \<le> length records
       \<and> (\<forall>r\<in>set (rows df).
            fst r < length records
          \<and> snd r ''booking_id'' =
              snd (rows (DataFrame pd (Records records)) ! fst r) ''booking_id''
          \<and> (\<forall>j. fst r < j \<and> j < length records \<longrightarrow>
                snd (rows (DataFrame pd (Records records)) ! j) ''booking_id'' \<noteq>
                snd r ''booking_id''))"
proof -
  let ?rows0 = "rows (DataFrame pd (Records records))"
  note rw = transform_data_Inr(3)[OF assms]
  have lab: "map fst ?rows0 = [0..<length records]" by (rule rows_Records_labels)
  then have len: "length ?rows0 = length records"
    by (metis length_map length_upt minus_nat.diff_0)
  have sub: "subseq (map fst (rows df)) [0..<length records]"
    unfolding rw lab[symmetric] by (rule cleaned_subseq)
  then have srt: "sorted_wrt (<) (map fst (rows df))"
    by (rule subseq_sorted_wrt) simp
  from sub have "length (map fst (rows df)) \<le> length [0..<length records]"
    by (rule list_emb_length)
  then have le: "length (rows df) \<le> length records" by simp
  have each: "fst r < length records
          \<and> snd r ''booking_id'' = snd (?rows0 ! fst r) ''booking_id''
          \<and> (\<forall>j. fst r < j \<and> j < length records \<longrightarrow>
                snd (?rows0 ! j) ''booking_id'' \<noteq> snd r ''booking_id'')"
    if "r \<in> set (rows df)" for r
  proof -
    from output_row_origin[OF assms that] obtain before r0 after where
      d: "?rows0 = before @ r0 # after"
         "r = (fst r0, clean_row pd (deduplicated (DataFrame pd (Records records))) (snd r0))"
         "snd r ''booking_id'' = snd r0 ''booking_id''"
         "snd r0 ''booking_id'' \<notin> (\<lambda>y. snd y ''booking_id'') ` set after"
      by blast
    let ?k = "length before"
    from d(1) have k: "?k < length ?rows0" "?rows0 ! ?k = r0" by simp_all
    from k(1) have "map fst ?rows0 ! ?k = fst (?rows0 ! ?k)" by (rule nth_map)
    with lab k len have "fst r0 = ?k" by simp
    with d(2) have fr: "fst r = ?k" by simp
    have later: "snd (?rows0 ! j) ''booking_id'' \<noteq> snd r ''booking_id''"
      if "?k < j" "j < length records" for j
    proof -
      from that d(1) len have "j - Suc ?k < length after" by auto
      moreover from that d(1) have "?rows0 ! j = after ! (j - Suc ?k)"
        by (simp add: nth_append nth_Cons')
      ultimately have "?rows0 ! j \<in> set after" by simp
      then have "snd (?rows0 ! j) ''booking_id'' \<in> (\<lambda>y. snd y ''booking_id'') ` set after"
        by (rule imageI)
      with d(3,4) show ?thesis by metis
    qed
    from fr k len d(3) later show ?thesis by auto
  qed
  from sub srt le each show ?thesis by blast
qed

theorem order_preserved_witness:
  "map (\<lambda>r. (fst r, snd r ''booking_id''))
     (rows_of (transform_data iso_pandas
        (Records [record5 (JInt 1) ''2024-01-01'' ''2024-01-05'' ''acme'' ''uk'',
                  record5 (JInt 2) ''2024-01-01'' ''2024-01-05'' ''acme'' ''uk'',
                  record5 (JInt 1) ''2024-01-01'' ''2024-01-05'' ''acme'' ''uk''])))
   = [(1, PyInt 2), (2, PyInt 1)]
   \<and> sorted_wrt (<) (map fst
     (rows_of (transform_data iso_pandas
        (Records [record5 (JInt 1) ''2024-01-01'' ''2024-01-05'' ''acme'' ''uk'',
                  record5 (JInt 2) ''2024-01-01'' ''2024-01-05'' ''acme'' ''uk'',
                  record5 (JInt 1) ''2024-01-01'' ''2024-01-05'' ''acme'' ''uk'']))))"
proof -
  let ?recs = "[record5 (JInt 1) ''2024-01-01'' ''2024-01-05'' ''acme'' ''uk'',
                  record5 (JInt 2) ''2024-01-01'' ''2024-01-05'' ''acme'' ''uk'',
                  record5 (JInt 1) ''2024-01-01'' ''2024-01-05'' ''acme'' ''uk'']"
  have cols: "set expected_columns \<subseteq> set (columns (DataFrame iso_pandas (Records ?recs)))"
    by (simp add: expected_columns_def record5_def)
  note run = transform_data_closed_form[OF cols]
  from order_preserved[OF run]
  have "sorted_wrt (<) (map fst (rows_of (transform_data iso_pandas (Records ?recs))))"
    unfolding run rows_of_def by simp
  moreover have "map (\<lambda>r. (fst r, snd r ''booking_id''))
     (rows_of (transform_data iso_pandas (Records ?recs))) = [(1, PyInt 2), (2, PyInt 1)]"
    by code_simp
  ultimately show ?thesis by simp
qed

text \<open>
  Claim C7, as amended. The table returned has the columns of the table built from the
  input: every field name that occurs in some record, the five expected ones among them.
  The claim as stated, five fields whatever else the records carry, fails on a record with
  a sixth field, which is kept as a column.
\<close>

theorem columns_kept:
  assumes "transform_data pd (Records records) = Inr df"
  shows "columns df = columns (DataFrame pd (Records records))
       \<and> set (columns df) = (\<Union>r\<in>set records. fst ` set r)
       \<and> set expected_columns \<subseteq> set (columns df)"
  using transform_data_Inr(1,2)[OF assms] columns_Records[of pd records] by simp

theorem columns_kept_witness:
  "columns_of (transform_data iso_pandas
     (Records [record5 (JInt 1) ''2024-01-01'' ''2024-01-05'' ''acme'' ''uk'' @ [(''price'', JInt 3)],
               (''guests'', JInt 2) # record5 (JInt 2) ''2024-01-01'' ''2024-01-05'' ''acme'' ''uk'']))
   = [''booking_id'', ''check_in_date'', ''check_out_date'', ''owner_company'',
      ''owner_company_country'', ''price'', ''guests'']"
proof -
  let ?recs = "[record5 (JInt 1) ''2024-01-01'' ''2024-01-05'' ''acme'' ''uk'' @ [(''price'', JInt 3)],
               (''guests'', JInt 2) # record5 (JInt 2) ''2024-01-01'' ''2024-01-05'' ''acme'' ''uk'']"
  have cols: "set expected_columns \<subseteq> set (columns (DataFrame iso_pandas (Records ?recs)))"
    by (simp add: expected_columns_def record5_def)
  note run = transform_data_closed_form[OF cols]
  from columns_kept[OF run]
  have "columns_of (transform_data iso_pandas (Records ?recs)) =
          columns (DataFrame iso_pandas (Records ?recs))"
    unfolding run columns_of_def by simp
  also have "\<dots> = [''booking_id'', ''check_in_date'', ''check_out_date'', ''owner_company'',
      ''owner_company_country'', ''price'', ''guests'']"
    by (simp add: record5_def)
  finally show ?thesis .
qed

text \<open>
  The counterexample to claim C7 as stated: one record with a field \<^verbatim>\<open>price\<close> gives a
  table of six columns.
\<close>

theorem five_fields_counterexample:
  "columns_of (transform_data iso_pandas
     (Records [record5 (JInt 1) ''2024-01-01'' ''2024-01-05'' ''acme'' ''uk'' @ [(''price'', JInt 3)]]))
   = [''booking_id'', ''check_in_date'', ''check_out_date'', ''owner_company'',
      ''owner_company_country'', ''price'']"
  by code_simp

lemma date_cell_Timestamp: "date_cell pd col (Timestamp t) = Timestamp t"
  by (simp add: date_cell_def parse_cell_def)

lemma ge_cell_Timestamps:
  "ge_cell a b \<Longrightarrow> (\<exists>t. a = Timestamp t) \<and> (\<exists>t. b = Timestamp t)"
  by (cases a; cases b) simp_all

lemma text_cell_idem:
  "isascii (str_cell pd col1 c) \<Longrightarrow>
   text_cell pd col2 (text_cell pd col1 c) = text_cell pd col1 c"
  by (simp add: text_cell_def str_cell_def normalise_idem)

text \<open>
  Claim C6, as amended. When the company and the country of every row left by the null
  removal and the deduplication print as ASCII text, transforming the table that the
  transformation returned gives that table again.
\<close>

theorem normalize_idempotent:
  assumes "transform_data pd x = Inr df"
    and "\<forall>r0\<in>set (deduplicated (DataFrame pd x)).
           isascii (str_cell pd (column (deduplicated (DataFrame pd x)) ''owner_company'')
                      (snd r0 ''owner_company''))
         \<and> isascii (str_cell pd (column (deduplicated (DataFrame pd x)) ''owner_company_country'')
                      (snd r0 ''owner_company_country''))"
  shows "transform_data pd (Frame df) = Inr df"
proof -
  let ?S = "deduplicated (DataFrame pd x)"
  let ?R = "rows df"
  note cols = transform_data_Inr(1)[OF assms(1)]
  note cdf = transform_data_Inr(2)[OF assms(1)]
  note rw = transform_data_Inr(3)[OF assms(1)]
  from cols cdf have cols': "set expected_columns \<subseteq> set (columns (DataFrame pd (Frame df)))"
    by simp
  have notna: "filter (\<lambda>(i, r). \<not> isna (r ''booking_id'')) ?R = ?R"
    using output_notna[OF assms(1)] by (auto simp: filter_id_conv)
  have "distinct (map (\<lambda>r. snd r ''booking_id'') ?R)"
    by (rule output_ids_distinct[OF assms(1)])
  then have "keep_last ''booking_id'' ?R = ?R" by (rule keep_last_distinct_id)
  with notna have dd: "deduplicated df = ?R" by (simp add: deduplicated_def)
  have stays: "clean_row pd ?R (snd r) = snd r \<and> ge_cell (snd r ''check_out_date'') (snd r ''check_in_date'')"
    if "r \<in> set ?R" for r
  proof -
    from that obtain r0 where r0m: "r0 \<in> set ?S"
      and r0: "r = (fst r0, clean_row pd ?S (snd r0))"
      and ge: "ge_cell (snd r ''check_out_date'') (snd r ''check_in_date'')"
      unfolding rw cleaned_iff by blast
    from ge_cell_Timestamps[OF ge] obtain a b where
      ts: "snd r ''check_out_date'' = Timestamp a" "snd r ''check_in_date'' = Timestamp b"
      by blast
    from r0 have tx: "snd r ''owner_company'' =
        text_cell pd (column ?S ''owner_company'') (snd r0 ''owner_company'')"
      "snd r ''owner_company_country'' =
        text_cell pd (column ?S ''owner_company_country'') (snd r0 ''owner_company_country'')"
      by (simp_all add: clean_row_text)
    from assms(2) r0m have asc:
      "isascii (str_cell pd (column ?S ''owner_company'') (snd r0 ''owner_company''))"
      "isascii (str_cell pd (column ?S ''owner_company_country'') (snd r0 ''owner_company_country''))"
      by blast+
    have "clean_row pd ?R (snd r) = snd r"
      unfolding clean_row_def
      by (simp add: ts tx date_cell_Timestamp text_cell_idem[OF asc(1)] text_cell_idem[OF asc(2)]
          fun_upd_idem)
    with ge show ?thesis by simp
  qed
  then have "map (\<lambda>r. (fst r, clean_row pd ?R (snd r))) ?R = ?R"
    by (simp add: map_idI)
  moreover from stays have "filter (\<lambda>r. ge_cell (snd r ''check_out_date'') (snd r ''check_in_date'')) ?R = ?R"
    by (simp add: filter_id_conv)
  ultimately have "cleaned pd df = ?R" by (simp add: cleaned_def dd)
  with transform_data_closed_form[OF cols'] cdf show ?thesis by simp
qed

theorem normalize_idempotent_witness:
  "again iso_pandas (transform_data iso_pandas
     (Records [record5 (JInt 1) ''2024-01-01'' ''2024-01-05'' ''  acme corp  '' ''uk'',
               record5 (JInt 1) ''2024-02-01'' ''2024-02-05'' ''  acme corp  '' ''uk'',
               record5 JNull ''2024-02-01'' ''2024-02-05'' ''acme'' ''uk'']))
   = transform_data iso_pandas
     (Records [record5 (JInt 1) ''2024-01-01'' ''2024-01-05'' ''  acme corp  '' ''uk'',
               record5 (JInt 1) ''2024-02-01'' ''2024-02-05'' ''  acme corp  '' ''uk'',
               record5 JNull ''2024-02-01'' ''2024-02-05'' ''acme'' ''uk''])
   \<and> map (\<lambda>r. (fst r, snd r ''booking_id'', snd r ''owner_company''))
     (rows_of (transform_data iso_pandas
     (Records [record5 (JInt 1) ''2024-01-01'' ''2024-01-05'' ''  acme corp  '' ''uk'',
               record5 (JInt 1) ''2024-02-01'' ''2024-02-05'' ''  acme corp  '' ''uk'',
               record5 JNull ''2024-02-01'' ''2024-02-05'' ''acme'' ''uk''])))
     = [(1, PyFloat 1, PyStr (ascii ''Acme Corp''))]"
proof -
  let ?x = "Records [record5 (JInt 1) ''2024-01-01'' ''2024-01-05'' ''  acme corp  '' ''uk'',
               record5 (JInt 1) ''2024-02-01'' ''2024-02-05'' ''  acme corp  '' ''uk'',
               record5 JNull ''2024-02-01'' ''2024-02-05'' ''acme'' ''uk'']"
  let ?S = "deduplicated (DataFrame iso_pandas ?x)"
  have cols: "set expected_columns \<subseteq> set (columns (DataFrame iso_pandas ?x))"
    by (simp add: expected_columns_def record5_def)
  note run = transform_data_closed_form[OF cols]
  have "list_all (\<lambda>r0.
           isascii (str_cell iso_pandas (column ?S ''owner_company'') (snd r0 ''owner_company''))
         \<and> isascii (str_cell iso_pandas (column ?S ''owner_company_country'')
                      (snd r0 ''owner_company_country''))) ?S"
    by code_simp
  then have asc: "\<forall>r0\<in>set ?S.
           isascii (str_cell iso_pandas (column ?S ''owner_company'') (snd r0 ''owner_company''))
         \<and> isascii (str_cell iso_pandas (column ?S ''owner_company_country'')
                      (snd r0 ''owner_company_country''))"
    by (simp only: list_all_iff)
  from normalize_idempotent[OF run asc]
  have "again iso_pandas (transform_data iso_pandas ?x) = transform_data iso_pandas ?x"
    unfolding run again_def by simp
  moreover have "map (\<lambda>r. (fst r, snd r ''booking_id'', snd r ''owner_company''))
     (rows_of (transform_data iso_pandas ?x)) = [(1, PyFloat 1, PyStr (ascii ''Acme Corp''))]"
    by code_simp
  ultimately show ?thesis by simp
qed

text \<open>
  The counterexample to claim C6 as stated: a company \<^verbatim>\<open>a\<close>, U+0130, \<^verbatim>\<open>b\<close>. The first run
  gives \<^verbatim>\<open>A\<close>, \<^verbatim>\<open>i\<close>, U+0307, \<^verbatim>\<open>b\<close>: the capital I with a dot follows a letter and is put in
  lower case, which is an \<^verbatim>\<open>i\<close> and a combining dot, and the \<^verbatim>\<open>b\<close> follows a letter. In that
  text the \<^verbatim>\<open>b\<close> follows the combining dot, which is not cased, so the second run puts it in
  upper case.
\<close>

theorem title_twice_counterexample:
  "column (rows_of (transform_data iso_pandas
        (Records [[(''booking_id'', JInt 1),
                   (''check_in_date'', JStr (ascii ''2024-01-01'')),
                   (''check_out_date'', JStr (ascii ''2024-01-05'')),
                   (''owner_company'', JStr [97, 304, 98]),
                   (''owner_company_country'', JStr (ascii ''tr''))]])))
     ''owner_company''
   = [PyStr [65, 105, 775, 98]]
   \<and> column (rows_of (again iso_pandas (transform_data iso_pandas
        (Records [[(''booking_id'', JInt 1),
                   (''check_in_date'', JStr (ascii ''2024-01-01'')),
                   (''check_out_date'', JStr (ascii ''2024-01-05'')),
                   (''owner_company'', JStr [97, 304, 98]),
                   (''owner_company_country'', JStr (ascii ''tr''))]]))))
     ''owner_company''
   = [PyStr [65, 105, 775, 66]]"
  by code_simp

end
